theory Spec2Isabelle
  imports Main "HOL-Library.AList"
begin

section \<open>Conventions\<close>

text \<open>
  The development embeds two modules of the ORM: \<^verbatim>\<open>sql/dml.py\<close> (the INSERT, UPDATE and
  DELETE builders) and \<^verbatim>\<open>orm/strategy_options.py\<close> (loader options). A source name
  with a leading underscore is written with a trailing prime (\<^verbatim>\<open>_returning\<close> is
  \<open>returning'\<close>); a method that two classes define is prefixed with its class.
  Exceptions are values of the type \<open>error\<close>; a function that can raise returns
  \<open>error + 'a\<close> with the exception on the left.
\<close>

datatype message =
    Already_inserts_from_SELECT
  | Already_has_multiple_parameter_sets
  | Only_single_positional_accepted
  | Cant_mix_single_and_multiple_values
  | Cant_pass_kwargs_and_multiple_parameter_sets
  | Does_not_support_multiple_parameter_sets
  | Wildcard_must_be_specified_alone
  | Only_expression_based_entities string
  | Cant_find_property_on_any_entity string
  | Cant_find_property_named string
  | Attribute_does_not_link_from_element
  | Attribute_does_not_refer_to_mapped_entity
  | Expects_string_key_or_list_of_attributes

datatype error =
    ArgumentError message
  | InvalidRequestError message
  | AttributeError
  | IndexError
  | KeyError
  | NameError
  | TypeError
  | ValueError

section \<open>sql/dml.py: the statement builders\<close>

subsection \<open>Python values that reach \<^verbatim>\<open>values()\<close>\<close>

text \<open>
  \<open>PSeq\<close> is a list or a tuple (the source tests \<^verbatim>\<open>isinstance(p, (list, tuple))\<close> and
  never tells them apart), \<open>PDict\<close> a dictionary in insertion order, \<open>PAtom\<close> any other
  object (a literal, a bind parameter, a column expression).
\<close>

datatype 'a pyval =
    PNone
  | PStr string
  | PAtom 'a
  | PDict "(string \<times> 'a pyval) list"
  | PSeq "'a pyval list"

text \<open>\<^verbatim>\<open>d.update(p)\<close> for dictionaries: every item of \<open>p\<close> is stored into \<open>d\<close> in turn.\<close>

definition dict_update :: "(string \<times> 'v) list \<Rightarrow> (string \<times> 'v) list \<Rightarrow> (string \<times> 'v) list" where
  "dict_update d p = fold (\<lambda>(k, v). AList.update k v) p d"

text \<open>\<^verbatim>\<open>dict(pairs)\<close>: a later pair overrides an earlier one with the same key.\<close>

definition dict_of_pairs :: "(string \<times> 'v) list \<Rightarrow> (string \<times> 'v) list" where
  "dict_of_pairs ps = dict_update [] ps"

fun is_list_tuple_dict :: "'a pyval \<Rightarrow> bool" where
  "is_list_tuple_dict (PSeq _) = True"
| "is_list_tuple_dict (PDict _) = True"
| "is_list_tuple_dict _ = False"

subsection \<open>The statement objects\<close>

text \<open>
  \<^verbatim>\<open>UpdateBase\<close> carries the RETURNING list; \<^verbatim>\<open>ValuesBase\<close> (INSERT and UPDATE) adds the
  value set and the return-defaults directive. \<open>table_c\<close> is the list of the keys of
  \<^verbatim>\<open>self.table.c\<close>, in column order. \<open>supports_multi_parameters'\<close> is the class attribute:
  \<open>True\<close> for \<^verbatim>\<open>Insert\<close>, \<open>False\<close> for \<^verbatim>\<open>Update\<close>. The fields that no modelled method
  reads or writes (bind, hints, prefixes, WHERE clause, dialect keyword arguments) live
  in the record's extension slot.
\<close>

datatype 'c return_defaults = RD_False | RD_True | RD_Cols "'c list"

record 'c update_base =
  table_c :: "string list"
  returning' :: "'c list option"

record ('a, 'c) values_base = "'c update_base" +
  supports_multi_parameters' :: bool
  parameters :: "'a pyval"
  has_multi_parameters' :: bool
  select :: "'a pyval"
  return_defaults' :: "'c return_defaults"

subsection \<open>Generative methods\<close>

text \<open>
  Statement objects live in a heap (a list; an address is an index), because a
  generative method leaves its receiver untouched and answers a new object.
\<close>

text \<open>
  Modelled from the spec: \<^verbatim>\<open>Generative._generate\<close> and the decorator \<^verbatim>\<open>_generative\<close> of
  \<^verbatim>\<open>sql/base.py\<close>, which is not among the sources. The spec (sections 3 and 9) describes
  them as a shallow clone followed by the method body run on the clone, the clone being
  the result. An exception of the body propagates and the clone is unreachable.
\<close>

definition generate' :: "'o list \<Rightarrow> nat \<Rightarrow> 'o list \<times> nat" where
  "generate' h self = (h @ [h ! self], length h)"

definition generative' :: "('o \<Rightarrow> error + 'o) \<Rightarrow> 'o list \<Rightarrow> nat \<Rightarrow> error + ('o list \<times> nat)" where
  "generative' body h self =
     (let (h1, s) = generate' h self in
      case body (h1 ! s) of
        Inl e \<Rightarrow> Inl e
      | Inr s' \<Rightarrow> Inr (h1[s := s'], s))"

subsection \<open>\<^verbatim>\<open>UpdateBase._process_colparams\<close>\<close>

definition process_single :: "string list \<Rightarrow> 'a pyval \<Rightarrow> 'a pyval" where
  "process_single cols p =
     (case p of
        PSeq xs \<Rightarrow> PDict (dict_of_pairs (zip cols xs))
      | _ \<Rightarrow> p)"

definition process_colparams' ::
  "('a, 'c, 'z) values_base_scheme \<Rightarrow> 'a pyval \<Rightarrow> error + ('a pyval \<times> bool)" where
  "process_colparams' self params =
     (case params of
        PSeq [] \<Rightarrow> Inl IndexError
      | PSeq (x # xs) \<Rightarrow>
          if is_list_tuple_dict x then
            if \<not> supports_multi_parameters' self
            then Inl (InvalidRequestError Does_not_support_multiple_parameter_sets)
            else Inr (PSeq (map (process_single (table_c self)) (x # xs)), True)
          else Inr (process_single (table_c self) params, False)
      | _ \<Rightarrow> Inr (process_single (table_c self) params, False))"

subsection \<open>\<^verbatim>\<open>UpdateBase.returning\<close> and \<^verbatim>\<open>ValuesBase.return_defaults\<close>\<close>

definition returning_body :: "'c list \<Rightarrow> ('c, 'z) update_base_scheme \<Rightarrow> error + ('c, 'z) update_base_scheme" where
  "returning_body cols self = Inr (self\<lparr>returning' := Some cols\<rparr>)"

definition returning ::
  "('c, 'z) update_base_scheme list \<Rightarrow> nat \<Rightarrow> 'c list \<Rightarrow> error + (('c, 'z) update_base_scheme list \<times> nat)" where
  "returning h self cols = generative' (returning_body cols) h self"

text \<open>\<^verbatim>\<open>cols or True\<close>: the empty tuple is false, so no argument records \<open>True\<close>.\<close>

definition return_defaults_body ::
  "'c list \<Rightarrow> ('a, 'c, 'z) values_base_scheme \<Rightarrow> error + ('a, 'c, 'z) values_base_scheme" where
  "return_defaults_body cols self =
     Inr (self\<lparr>return_defaults' := (if cols \<noteq> [] then RD_Cols cols else RD_True)\<rparr>)"

definition return_defaults ::
  "('a, 'c, 'z) values_base_scheme list \<Rightarrow> nat \<Rightarrow> 'c list \<Rightarrow> error + (('a, 'c, 'z) values_base_scheme list \<times> nat)" where
  "return_defaults h self cols = generative' (return_defaults_body cols) h self"

subsection \<open>\<^verbatim>\<open>ValuesBase.values\<close>\<close>

text \<open>
  \<^verbatim>\<open>list(self.parameters)\<close>: a copy of a sequence, the keys of a dictionary, the
  characters of a string; anything else is not iterable.
\<close>

definition py_list :: "'a pyval \<Rightarrow> error + 'a pyval list" where
  "py_list p =
     (case p of
        PSeq xs \<Rightarrow> Inr xs
      | PDict d \<Rightarrow> Inr (map (\<lambda>kv. PStr (fst kv)) d)
      | PStr s \<Rightarrow> Inr (map (\<lambda>c. PStr [c]) s)
      | _ \<Rightarrow> Inl TypeError)"

text \<open>
  \<^verbatim>\<open>self.parameters.update(p)\<close> on the parameters as they stand. Only a dictionary has
  the method. The argument is a dictionary, whose items are merged in, or is iterated
  for key/value pairs: the empty string has no element and changes nothing, every
  element of another string is a string of length one and not a pair
  (\<^verbatim>\<open>ValueError\<close>), and \<^verbatim>\<open>None\<close> and other objects are not iterable
  (\<^verbatim>\<open>TypeError\<close>). A list never reaches this call, \<^verbatim>\<open>process_single\<close> having made a
  dictionary of it, and keyword arguments are a dictionary.
\<close>

definition py_dict_update :: "'a pyval \<Rightarrow> 'a pyval \<Rightarrow> error + 'a pyval" where
  "py_dict_update params p =
     (case params of
        PDict d \<Rightarrow>
          (case p of
             PDict d' \<Rightarrow> Inr (PDict (dict_update d d'))
           | PStr s \<Rightarrow> if s = [] then Inr (PDict d) else Inl ValueError
           | PNone \<Rightarrow> Inl TypeError
           | PAtom a \<Rightarrow> Inl TypeError
           | PSeq xs \<Rightarrow> Inl TypeError)
      | _ \<Rightarrow> Inl AttributeError)"

text \<open>The first half of the body: the positional argument.\<close>

definition values_args ::
  "('a, 'c, 'z) values_base_scheme \<Rightarrow> 'a pyval \<Rightarrow> error + ('a, 'c, 'z) values_base_scheme" where
  "values_args self v =
     (if parameters self = PNone then
        (case process_colparams' self v of
           Inl e \<Rightarrow> Inl e
         | Inr (p, multi) \<Rightarrow> Inr (self\<lparr>parameters := p, has_multi_parameters' := multi\<rparr>))
      else if has_multi_parameters' self then
        (case py_list (parameters self) of
           Inl e \<Rightarrow> Inl e
         | Inr xs \<Rightarrow>
             (case process_colparams' self v of
                Inl e \<Rightarrow> Inl e
              | Inr (p, multi) \<Rightarrow>
                  if \<not> multi then Inl (ArgumentError Cant_mix_single_and_multiple_values)
                  else (case py_list p of
                          Inl e \<Rightarrow> Inl e
                        | Inr ys \<Rightarrow> Inr (self\<lparr>parameters := PSeq (xs @ ys),
                                               has_multi_parameters' := multi\<rparr>))))
      else
        (case parameters self of
           PDict d \<Rightarrow>
             (case process_colparams' self v of
                Inl e \<Rightarrow> Inl e
              | Inr (p, multi) \<Rightarrow>
                  if multi then Inl (ArgumentError Cant_mix_single_and_multiple_values)
                  else (case py_dict_update (PDict d) p of
                          Inl e \<Rightarrow> Inl e
                        | Inr q \<Rightarrow> Inr (self\<lparr>parameters := q, has_multi_parameters' := multi\<rparr>)))
         | _ \<Rightarrow> Inl AttributeError))"

text \<open>The second half: the keyword arguments.\<close>

definition values_kwargs ::
  "('a, 'c, 'z) values_base_scheme \<Rightarrow> (string \<times> 'a pyval) list \<Rightarrow> error + ('a, 'c, 'z) values_base_scheme" where
  "values_kwargs self kwargs =
     (if kwargs \<noteq> [] then
        if has_multi_parameters' self
        then Inl (ArgumentError Cant_pass_kwargs_and_multiple_parameter_sets)
        else (case py_dict_update (parameters self) (PDict kwargs) of
                Inl e \<Rightarrow> Inl e
              | Inr q \<Rightarrow> Inr (self\<lparr>parameters := q\<rparr>))
      else Inr self)"

definition values_body ::
  "'a pyval list \<Rightarrow> (string \<times> 'a pyval) list \<Rightarrow> ('a, 'c, 'z) values_base_scheme
     \<Rightarrow> error + ('a, 'c, 'z) values_base_scheme" where
  "values_body args kwargs self =
     (if select self \<noteq> PNone then Inl (InvalidRequestError Already_inserts_from_SELECT)
      else if has_multi_parameters' self \<and> kwargs \<noteq> []
        then Inl (InvalidRequestError Already_has_multiple_parameter_sets)
      else if length args > 1 then Inl (ArgumentError Only_single_positional_accepted)
      else
        (case values_args self (case args of [] \<Rightarrow> PDict [] | v # _ \<Rightarrow> v) of
           Inl e \<Rightarrow> Inl e
         | Inr self1 \<Rightarrow> values_kwargs self1 kwargs))"

definition values_meth ::
  "('a, 'c, 'z) values_base_scheme list \<Rightarrow> nat \<Rightarrow> 'a pyval list \<Rightarrow> (string \<times> 'a pyval) list
     \<Rightarrow> error + (('a, 'c, 'z) values_base_scheme list \<times> nat)" where
  "values_meth h self args kwargs = generative' (values_body args kwargs) h self"

section \<open>orm/strategy_options.py: loader options\<close>

subsection \<open>Entities, properties, tokens\<close>

text \<open>
  Mappers and aliases are objects compared by identity; they are numbered. An entity
  is what \<^verbatim>\<open>inspect()\<close> answers for a mapped class (its mapper), for an aliased class
  (the alias and the mapper it stands for), or for the result of
  \<^verbatim>\<open>with_polymorphic(base, mapper, aliased=True, _use_mapper_path=True)\<close>.
\<close>

datatype entity = Mapper nat | Aliased nat nat | With_polymorphic nat nat

fun mapper_of :: "entity \<Rightarrow> nat" where
  "mapper_of (Mapper m) = m"
| "mapper_of (Aliased a m) = m"
| "mapper_of (With_polymorphic b m) = m"

fun is_aliased_class :: "entity \<Rightarrow> bool" where
  "is_aliased_class (Mapper m) = False"
| "is_aliased_class (Aliased a m) = True"
| "is_aliased_class (With_polymorphic b m) = True"

text \<open>
  A mapper property: its key, the mapper that declares it, and the mapper it leads to
  when it is a relationship (a column property has no \<^verbatim>\<open>mapper\<close> attribute).
\<close>

record mprop =
  prop_key :: string
  prop_parent :: nat
  prop_mapper :: "nat option"

text \<open>A class-bound attribute (a \<^verbatim>\<open>PropComparator\<close>), with its optional \<^verbatim>\<open>_of_type\<close>.\<close>

record comparator =
  cmp_property :: mprop
  cmp_parententity' :: entity
  cmp_of_type' :: "entity option"

text \<open>A token of an option's key: a string, an attribute, or any other object.\<close>

datatype token = TStr string | TAttr comparator | TOther

subsection \<open>Paths and the attribute context\<close>

datatype pelem = PEnt entity | PProp mprop | PToken string

type_synonym path = "pelem list"

datatype sval = SStr string | SBool bool

type_synonym strategy = "(string \<times> sval) list"

text \<open>
  A bound \<^verbatim>\<open>Load\<close> object. Its context dictionary is shared by every clone, so the
  object holds the dictionary's address in the heap.
\<close>

record load =
  load_path :: path
  load_context :: nat
  load_strategy :: "strategy option"

datatype selectable = Selectable nat | Target_alias nat string

datatype adapter = ColumnAdapter selectable nat | ORMAdapter entity nat | Polymorphic_adapter nat

datatype ctx_val =
    V_loader load
  | V_strategy nat
  | V_bool bool
  | V_info entity
  | V_adapter "adapter option"

type_synonym ctx = "(string \<times> path) \<Rightarrow> ctx_val option"

text \<open>
  Modelled from the spec: the path registry (\<^verbatim>\<open>orm/path_registry.py\<close>), which is not
  among the sources. By sections 3 and 4.1 of the spec a path is an immutable sequence
  of entity and property tokens compared element-wise, \<^verbatim>\<open>path[x]\<close> extends it by one
  token, \<^verbatim>\<open>parent\<close> is the path minus its last token, and the attribute context maps a
  (key name, path) pair to a value, the last value set winning. \<^verbatim>\<open>has_entity\<close> tells
  whether the tip of the path has an entity: the tip is one, or it is a relationship
  property that leads to one (the source tests \<^verbatim>\<open>path.has_entity\<close> right after
  \<^verbatim>\<open>path = path[prop]\<close> and then steps to \<^verbatim>\<open>path.entity_path\<close>); \<^verbatim>\<open>entity\<close> is that
  entity and \<^verbatim>\<open>entity_path\<close> the path that ends on it.
\<close>

definition has_entity :: "path \<Rightarrow> bool" where
  "has_entity p =
     (case p of
        [] \<Rightarrow> False
      | _ \<Rightarrow> (case last p of
                PEnt e \<Rightarrow> True
              | PProp pr \<Rightarrow> prop_mapper pr \<noteq> None
              | PToken s \<Rightarrow> False))"

definition path_entity :: "path \<Rightarrow> error + entity" where
  "path_entity p =
     (case p of
        [] \<Rightarrow> Inl AttributeError
      | _ \<Rightarrow> (case last p of
                PEnt e \<Rightarrow> Inr e
              | PProp pr \<Rightarrow> (case prop_mapper pr of
                              None \<Rightarrow> Inl AttributeError
                            | Some m \<Rightarrow> Inr (Mapper m))
              | PToken s \<Rightarrow> Inl AttributeError))"

definition entity_path :: "path \<Rightarrow> error + path" where
  "entity_path p =
     (case p of
        [] \<Rightarrow> Inl AttributeError
      | _ \<Rightarrow> (case last p of
                PEnt e \<Rightarrow> Inr p
              | PProp pr \<Rightarrow> (case prop_mapper pr of
                              None \<Rightarrow> Inl AttributeError
                            | Some m \<Rightarrow> Inr (p @ [PEnt (Mapper m)]))
              | PToken s \<Rightarrow> Inl AttributeError))"

definition parent :: "path \<Rightarrow> error + path" where
  "parent p = (case p of [] \<Rightarrow> Inl AttributeError | _ \<Rightarrow> Inr (butlast p))"

definition path_set :: "ctx \<Rightarrow> path \<Rightarrow> string \<Rightarrow> ctx_val \<Rightarrow> ctx" where
  "path_set attributes p k v = attributes((k, p) \<mapsto> v)"

definition path_setdefault :: "ctx \<Rightarrow> path \<Rightarrow> string \<Rightarrow> ctx_val \<Rightarrow> ctx" where
  "path_setdefault attributes p k v =
     (case attributes (k, p) of None \<Rightarrow> attributes((k, p) \<mapsto> v) | Some _ \<Rightarrow> attributes)"

definition path_contains :: "ctx \<Rightarrow> path \<Rightarrow> string \<Rightarrow> bool" where
  "path_contains attributes p k = (attributes (k, p) \<noteq> None)"

definition path_get :: "ctx \<Rightarrow> path \<Rightarrow> string \<Rightarrow> error + ctx_val" where
  "path_get attributes p k =
     (case attributes (k, p) of None \<Rightarrow> Inl KeyError | Some v \<Rightarrow> Inr v)"

text \<open>
  Modelled from the spec: \<^verbatim>\<open>PathRegistry.pairs()\<close>, the (entity, property) pairs of a
  path, produced one at a time; a path of odd length fails when its last pair is asked
  for. Here the head pair of a path and the rest.
\<close>

fun next_pair :: "path \<Rightarrow> error + ((pelem \<times> pelem) \<times> path) option" where
  "next_pair [] = Inr None"
| "next_pair [x] = Inl IndexError"
| "next_pair (x # y # rest) = Inr (Some ((x, y), rest))"

subsection \<open>The query and the mapping configuration\<close>

record mapper_entity =
  entity_zero :: entity
  ent_mapper :: nat

record query =
  mapper_entities' :: "mapper_entity list"
  current_path' :: path
  attributes' :: ctx
  polymorphic_adapters' :: "nat \<Rightarrow> nat option"

datatype lazy = Lazy_True | Lazy_False | Lazy_None | Lazy_str string

text \<open>
  What the module asks of the mapping configuration, taken as parameters:
  \<^verbatim>\<open>entity.attrs[name]\<close>, \<^verbatim>\<open>getattr(mapper.class_, name).property\<close>,
  \<^verbatim>\<open>mapper.base_mapper\<close>, \<^verbatim>\<open>ent.corresponds_to(searchfor)\<close>,
  \<^verbatim>\<open>prop.parent.common_parent(mapper)\<close>, \<^verbatim>\<open>mapper._equivalent_columns\<close>,
  \<^verbatim>\<open>prop.target\<close> and \<^verbatim>\<open>RelationshipProperty._strategy_lookup(lazy=...)\<close>.
\<close>

record env =
  attrs :: "entity \<Rightarrow> string \<Rightarrow> mprop option"
  class_attr :: "nat \<Rightarrow> string \<Rightarrow> mprop option"
  base_mapper :: "nat \<Rightarrow> nat"
  corresponds_to :: "mapper_entity \<Rightarrow> entity \<Rightarrow> bool"
  common_parent :: "nat \<Rightarrow> nat \<Rightarrow> bool"
  equivalent_columns' :: "nat \<Rightarrow> nat"
  prop_target :: "mprop \<Rightarrow> nat"
  strategy_lookup' :: "lazy \<Rightarrow> nat"

subsection \<open>The heap\<close>

text \<open>
  An unbound option, its \<^verbatim>\<open>_to_bind\<close> set and a bound option's context are mutable
  objects that several options share, so they live in a heap: three lists, an address
  being an index. A set is kept as the list of its members (addresses of options, which
  compare by identity) without repetition.
\<close>

record unbound_load =
  ub_path :: "token list"
  ub_strategy :: "strategy option"
  to_bind' :: nat
  local_opts :: "(string \<times> ctx_val) list"

record heap =
  objs :: "unbound_load list"
  sets :: "nat list list"
  dicts :: "ctx list"

definition set_add :: "heap \<Rightarrow> nat \<Rightarrow> nat \<Rightarrow> heap" where
  "set_add h s x =
     (if x \<in> set (sets h ! s) then h
      else h\<lparr>sets := (sets h)[s := sets h ! s @ [x]]\<rparr>)"

subsection \<open>The bound option: \<^verbatim>\<open>Load\<close>\<close>

definition joined_strategy :: strategy where
  "joined_strategy = [(''lazy'', SStr ''joined'')]"


text \<open>
  \<^verbatim>\<open>Load._generate_path\<close>. It reads the mapping and may record a polymorphic entity in
  \<^verbatim>\<open>self.context\<close>, whose content is passed in and handed back.
\<close>

definition Load_generate_path' :: "env \<Rightarrow> ctx \<Rightarrow> path \<Rightarrow> token \<Rightarrow> error + (ctx \<times> path)" where
  "Load_generate_path' E context p attr =
     (case
        (case attr of
           TStr s \<Rightarrow>
             (case path_entity p of
                Inl e \<Rightarrow> Inl e
              | Inr ent \<Rightarrow>
                  (case attrs E ent s of
                     None \<Rightarrow> Inl KeyError
                   | Some pr \<Rightarrow> Inr (context, p @ [PProp pr])))
         | TAttr a \<Rightarrow>
             (case cmp_of_type' a of
                Some ac \<Rightarrow>
                  if \<not> is_aliased_class ac then
                    (case entity_path p of
                       Inl e \<Rightarrow> Inl e
                     | Inr ep \<Rightarrow>
                         Inr (path_set context (ep @ [PProp (cmp_property a)])
                                ''path_with_polymorphic''
                                (V_info (With_polymorphic (base_mapper E (mapper_of ac)) (mapper_of ac))),
                              p @ [PProp (cmp_property a), PEnt (Mapper (mapper_of ac))]))
                  else Inr (context, p @ [PProp (cmp_property a), PEnt (Mapper (mapper_of ac))])
              | None \<Rightarrow> Inr (context, p @ [PProp (cmp_property a)]))
         | TOther \<Rightarrow> Inl AttributeError)
      of
        Inl e \<Rightarrow> Inl e
      | Inr (context1, p1) \<Rightarrow>
          if has_entity p1 then
            (case entity_path p1 of Inl e \<Rightarrow> Inl e | Inr p2 \<Rightarrow> Inr (context1, p2))
          else Inr (context1, p1))"

text \<open>
  \<^verbatim>\<open>Load._set_strategy\<close>, generative: the clone shares the receiver's context
  dictionary, gets the extended path and the strategy, and is stored under
  \<^verbatim>\<open>"loader"\<close> at the parent of its path when the strategy is not \<^verbatim>\<open>None\<close>.
\<close>

definition Load_set_strategy' ::
  "env \<Rightarrow> heap \<Rightarrow> load \<Rightarrow> token \<Rightarrow> strategy option \<Rightarrow> error + (heap \<times> load)" where
  "Load_set_strategy' E h self attr strategy =
     (case Load_generate_path' E (dicts h ! load_context self) (load_path self) attr of
        Inl e \<Rightarrow> Inl e
      | Inr (c1, p) \<Rightarrow>
          (let loader = self\<lparr>load_path := p, load_strategy := strategy\<rparr> in
           if strategy \<noteq> None then
             (case parent p of
                Inl e \<Rightarrow> Inl e
              | Inr pp \<Rightarrow>
                  Inr (h\<lparr>dicts := (dicts h)[load_context self :=
                                      path_set c1 pp ''loader'' (V_loader loader)]\<rparr>, loader))
           else Inr (h\<lparr>dicts := (dicts h)[load_context self := c1]\<rparr>, loader)))"

text \<open>\<^verbatim>\<open>Load._set_options\<close>.\<close>

definition Load_set_options' ::
  "heap \<Rightarrow> load \<Rightarrow> (string \<times> ctx_val) list \<Rightarrow> error + heap" where
  "Load_set_options' h self kw =
     (case (if has_entity (load_path self) then parent (load_path self)
            else Inr (load_path self)) of
        Inl e \<Rightarrow> Inl e
      | Inr target_path \<Rightarrow>
          Inr (h\<lparr>dicts := (dicts h)[load_context self :=
                   fold (\<lambda>(k, v) c. path_set c target_path k v) kw
                     (dicts h ! load_context self)]\<rparr>))"


definition Load_default ::
  "env \<Rightarrow> heap \<Rightarrow> load \<Rightarrow> token \<Rightarrow> error + (heap \<times> load)" where
  "Load_default E h self attr = Load_set_strategy' E h self attr None"

text \<open>\<^verbatim>\<open>Load._process\<close>: the context is merged into the query's attributes.\<close>

definition Load_process' :: "heap \<Rightarrow> load \<Rightarrow> query \<Rightarrow> bool \<Rightarrow> query" where
  "Load_process' h self q raiseerr =
     q\<lparr>attributes' := attributes' q ++ (dicts h ! load_context self)\<rparr>"

subsection \<open>The unbound option: \<^verbatim>\<open>_UnboundLoad\<close>\<close>

text \<open>
  \<^verbatim>\<open>_UnboundLoad.__init__\<close>: an empty path, a new empty set and no local options; the
  strategy is the class attribute \<^verbatim>\<open>None\<close>.
\<close>

definition UnboundLoad_init :: "heap \<Rightarrow> heap \<times> nat" where
  "UnboundLoad_init h =
     (h\<lparr>objs := objs h @ [\<lparr>ub_path = [], ub_strategy = None,
                             to_bind' = length (sets h), local_opts = []\<rparr>],
        sets := sets h @ [[]]\<rparr>,
      length (objs h))"

text \<open>
  \<^verbatim>\<open>_UnboundLoad._generate\<close>: the shallow clone of \<^verbatim>\<open>Generative._generate\<close> (the clone
  refers to the same \<^verbatim>\<open>_to_bind\<close> set) with a new dictionary of local options.
\<close>

definition UnboundLoad_generate' :: "heap \<Rightarrow> nat \<Rightarrow> heap \<times> nat" where
  "UnboundLoad_generate' h self =
     (h\<lparr>objs := objs h @ [(objs h ! self)\<lparr>local_opts := []\<rparr>]\<rparr>, length (objs h))"

definition UnboundLoad_generate_path' :: "token list \<Rightarrow> token \<Rightarrow> token list" where
  "UnboundLoad_generate_path' p attr = p @ [attr]"

text \<open>\<^verbatim>\<open>_UnboundLoad._set_strategy\<close>, generative: the body runs on the clone.\<close>

definition UnboundLoad_set_strategy' ::
  "heap \<Rightarrow> nat \<Rightarrow> token \<Rightarrow> strategy option \<Rightarrow> heap \<times> nat" where
  "UnboundLoad_set_strategy' h self attr strategy =
     (let (h1, c) = UnboundLoad_generate' h self;
          ob = objs h1 ! c;
          ob' = ob\<lparr>ub_path := UnboundLoad_generate_path' (ub_path ob) attr,
                   ub_strategy := strategy\<rparr>;
          h2 = h1\<lparr>objs := (objs h1)[c := ob']\<rparr>
      in if strategy \<noteq> None then (set_add h2 (to_bind' ob') c, c) else (h2, c))"

text \<open>\<^verbatim>\<open>_UnboundLoad._set_options\<close>: \<^verbatim>\<open>self.local_opts.update(kw)\<close>, in place.\<close>

definition UnboundLoad_set_options' :: "heap \<Rightarrow> nat \<Rightarrow> (string \<times> ctx_val) list \<Rightarrow> heap" where
  "UnboundLoad_set_options' h self kw =
     h\<lparr>objs := (objs h)[self := (objs h ! self)\<lparr>local_opts :=
                   dict_update (local_opts (objs h ! self)) kw\<rparr>]\<rparr>"

text \<open>\<^verbatim>\<open>Load.joined\<close> and \<^verbatim>\<open>Load.default\<close> as an unbound option inherits them.\<close>

definition UnboundLoad_joined :: "heap \<Rightarrow> nat \<Rightarrow> token \<Rightarrow> bool option \<Rightarrow> heap \<times> nat" where
  "UnboundLoad_joined h self attr innerjoin =
     (let (h1, loader) = UnboundLoad_set_strategy' h self attr (Some joined_strategy) in
      case innerjoin of
        None \<Rightarrow> (h1, loader)
      | Some b \<Rightarrow> (UnboundLoad_set_options' h1 loader [(''eager_join_type'', V_bool b)], loader))"

definition UnboundLoad_default :: "heap \<Rightarrow> nat \<Rightarrow> token \<Rightarrow> heap \<times> nat" where
  "UnboundLoad_default h self attr = UnboundLoad_set_strategy' h self attr None"

text \<open>\<^verbatim>\<open>key.split(".")\<close>: the pieces between the separators, empty pieces included.\<close>

fun split_on :: "char \<Rightarrow> string \<Rightarrow> string list" where
  "split_on c [] = [[]]"
| "split_on c (x # xs) =
     (if x = c then [] # split_on c xs
      else (case split_on c xs of
              [] \<Rightarrow> [[x]]
            | w # ws \<Rightarrow> (x # w) # ws))"

text \<open>
  \<^verbatim>\<open>_UnboundLoad._from_keys\<close>. \<open>meth\<close> stands for the call \<^verbatim>\<open>meth(opt, token, **kw)\<close>
  with the keyword arguments fixed.
\<close>

fun from_keys_loop ::
  "(heap \<Rightarrow> nat \<Rightarrow> token \<Rightarrow> heap \<times> nat) \<Rightarrow> bool \<Rightarrow> string list \<Rightarrow> heap \<times> nat \<Rightarrow> heap \<times> nat" where
  "from_keys_loop meth chained [] st = st"
| "from_keys_loop meth chained (t # ts) (h, opt) =
     from_keys_loop meth chained ts
       (if chained then meth h opt (TStr t) else UnboundLoad_default h opt (TStr t))"

definition from_keys' ::
  "(heap \<Rightarrow> nat \<Rightarrow> token \<Rightarrow> heap \<times> nat) \<Rightarrow> string list \<Rightarrow> bool \<Rightarrow> heap \<Rightarrow> error + (heap \<times> nat)" where
  "from_keys' meth keys chained h =
     (let (h0, opt) = UnboundLoad_init h;
          all_tokens = concat (map (split_on CHR ''.'') keys);
          (h1, opt1) = from_keys_loop meth chained (butlast all_tokens) (h0, opt)
      in if all_tokens = [] then Inl IndexError
         else Inr (meth h1 opt1 (TStr (last all_tokens))))"

definition joinedload' :: "string list \<Rightarrow> bool option \<Rightarrow> heap \<Rightarrow> error + (heap \<times> nat)" where
  "joinedload' keys innerjoin h =
     from_keys' (\<lambda>h opt token. UnboundLoad_joined h opt token innerjoin) keys False h"

definition joinedload_all' :: "string list \<Rightarrow> bool option \<Rightarrow> heap \<Rightarrow> error + (heap \<times> nat)" where
  "joinedload_all' keys innerjoin h =
     from_keys' (\<lambda>h opt token. UnboundLoad_joined h opt token innerjoin) keys True h"

text \<open>
  \<^verbatim>\<open>_UnboundLoad._chop_path\<close>, as the function of its two declared parameters. The loop
  over \<^verbatim>\<open>enumerate(zip(to_chop, path.pairs()))\<close> ends when the tokens or the pairs run
  out (the \<^verbatim>\<open>else\<close> branch makes \<open>i\<close> the number of pairs passed) or at the first token
  whose property is not the pair's (\<^verbatim>\<open>break\<close>, with \<open>i\<close> the index of that token); the
  result is \<^verbatim>\<open>to_chop[i:]\<close>.

  The test reads \<^verbatim>\<open>c_token.property\<close> and then \<^verbatim>\<open>p_prop.property\<close>. A class-bound
  attribute has a \<^verbatim>\<open>property\<close>; a string has none. The elements of a path are
  entities, mapper properties and tokens: a mapper property is what the \<^verbatim>\<open>property\<close> of
  an attribute answers and has no attribute \<^verbatim>\<open>property\<close> of its own, so the second read
  raises \<^verbatim>\<open>AttributeError\<close> on every element a path can hold.
\<close>

definition token_property :: "token \<Rightarrow> error + mprop" where
  "token_property c_token =
     (case c_token of TAttr a \<Rightarrow> Inr (cmp_property a) | _ \<Rightarrow> Inl AttributeError)"

definition pelem_property :: "pelem \<Rightarrow> error + mprop" where
  "pelem_property p_prop = Inl AttributeError"

fun chop_loop :: "nat \<Rightarrow> token list \<Rightarrow> path \<Rightarrow> error + nat" where
  "chop_loop i [] p = Inr i"
| "chop_loop i (c_token # rest) p =
     (case next_pair p of
        Inl e \<Rightarrow> Inl e
      | Inr None \<Rightarrow> Inr i
      | Inr (Some ((p_mapper, p_prop), p')) \<Rightarrow>
          (case token_property c_token of
             Inl e \<Rightarrow> Inl e
           | Inr c \<Rightarrow>
               (case pelem_property p_prop of
                  Inl e \<Rightarrow> Inl e
                | Inr pr \<Rightarrow>
                    if c \<noteq> pr then Inr i
                    else chop_loop (i + 1) rest p')))"

definition chop_path' :: "token list \<Rightarrow> path \<Rightarrow> error + token list" where
  "chop_path' to_chop p =
     (case chop_loop 0 to_chop p of
        Inl e \<Rightarrow> Inl e
      | Inr i \<Rightarrow> Inr (drop i to_chop))"

text \<open>
  \<^verbatim>\<open>_UnboundLoad._find_entity_prop_comparator\<close>. Its last parameter is named
  \<^verbatim>\<open>conditional\<close>, and the function raises when it is false.
\<close>

definition searchfor_of :: "entity \<Rightarrow> entity" where
  "searchfor_of m = (if is_aliased_class m then m else Mapper (mapper_of m))"

definition UnboundLoad_find_entity_prop_comparator' ::
  "env \<Rightarrow> query \<Rightarrow> string \<Rightarrow> entity \<Rightarrow> bool \<Rightarrow> error + mapper_entity option" where
  "UnboundLoad_find_entity_prop_comparator' E q token m conditional =
     (case find (\<lambda>ent. corresponds_to E ent (searchfor_of m)) (mapper_entities' q) of
        Some ent \<Rightarrow> Inr (Some ent)
      | None \<Rightarrow>
          if \<not> conditional then
            if mapper_entities' q = []
            then Inl (ArgumentError (Only_expression_based_entities token))
            else Inl (ArgumentError (Cant_find_property_on_any_entity token))
          else Inr None)"

definition UnboundLoad_find_entity_basestring' ::
  "query \<Rightarrow> string \<Rightarrow> bool \<Rightarrow> error + mapper_entity option" where
  "UnboundLoad_find_entity_basestring' q token raiseerr =
     (case mapper_entities' q of
        ent # _ \<Rightarrow> Inr (Some ent)
      | [] \<Rightarrow>
          if raiseerr then Inl (ArgumentError (Only_expression_based_entities token))
          else Inr None)"

text \<open>
  \<^verbatim>\<open>_UnboundLoad._bind_loader\<close>. \<open>context\<close> is the address of the dictionary that
  \<^verbatim>\<open>_process\<close> created. With a current path, the source calls
  \<^verbatim>\<open>self._chop_path(start_path, current_path)\<close>: \<^verbatim>\<open>_chop_path\<close> is declared with two
  parameters and no \<^verbatim>\<open>self\<close>, so the bound call passes three arguments and raises
  \<^verbatim>\<open>TypeError\<close>. The dictionary that \<^verbatim>\<open>Load(path_element)\<close> creates is replaced by
  \<open>context\<close> at once and is not allocated here.
\<close>

fun bind_tokens :: "env \<Rightarrow> ctx \<Rightarrow> path \<Rightarrow> token list \<Rightarrow> error + (ctx \<times> path)" where
  "bind_tokens E c p [] = Inr (c, p)"
| "bind_tokens E c p (token # rest) =
     (case Load_generate_path' E c p token of
        Inl e \<Rightarrow> Inl e
      | Inr (c1, p1) \<Rightarrow> bind_tokens E c1 p1 rest)"

definition bind_loader' ::
  "env \<Rightarrow> heap \<Rightarrow> nat \<Rightarrow> query \<Rightarrow> nat \<Rightarrow> bool \<Rightarrow> error + heap" where
  "bind_loader' E h self q context raiseerr =
     (let start_path = ub_path (objs h ! self) in
      if current_path' q \<noteq> [] then Inl TypeError
      else
        (case start_path of
           [] \<Rightarrow> Inl IndexError
         | token # _ \<Rightarrow>
             (case (case token of
                      TStr s \<Rightarrow> UnboundLoad_find_entity_basestring' q s raiseerr
                    | TAttr a \<Rightarrow>
                        UnboundLoad_find_entity_prop_comparator' E q
                          (prop_key (cmp_property a)) (cmp_parententity' a) raiseerr
                    | TOther \<Rightarrow> Inl (ArgumentError Expects_string_key_or_list_of_attributes)) of
                Inl e \<Rightarrow> Inl e
              | Inr None \<Rightarrow> Inl AttributeError
              | Inr (Some entity) \<Rightarrow>
                  (case bind_tokens E (dicts h ! context) [PEnt (entity_zero entity)] start_path of
                     Inl e \<Rightarrow> Inl e
                   | Inr (c1, p) \<Rightarrow>
                       (let loader = \<lparr>load_path = p, load_context = context,
                                       load_strategy = ub_strategy (objs h ! self)\<rparr> in
                        case (if has_entity p then parent p else Inr p) of
                          Inl e \<Rightarrow> Inl e
                        | Inr t \<Rightarrow>
                            (let h1 = h\<lparr>dicts := (dicts h)[context :=
                                           path_set c1 t ''loader'' (V_loader loader)]\<rparr> in
                             if local_opts (objs h ! self) \<noteq> []
                             then Load_set_options' h1 loader (local_opts (objs h ! self))
                             else Inr h1))))))"

text \<open>
  \<^verbatim>\<open>_UnboundLoad._process\<close>. A set is iterated in an order the program does not
  choose: \<open>order\<close> is that order, a list of the members of \<^verbatim>\<open>self._to_bind\<close>.
\<close>

fun bind_all :: "env \<Rightarrow> heap \<Rightarrow> nat list \<Rightarrow> query \<Rightarrow> nat \<Rightarrow> bool \<Rightarrow> error + heap" where
  "bind_all E h [] q context raiseerr = Inr h"
| "bind_all E h (val # rest) q context raiseerr =
     (case bind_loader' E h val q context raiseerr of
        Inl e \<Rightarrow> Inl e
      | Inr h1 \<Rightarrow> bind_all E h1 rest q context raiseerr)"

definition UnboundLoad_process' ::
  "env \<Rightarrow> heap \<Rightarrow> nat list \<Rightarrow> query \<Rightarrow> bool \<Rightarrow> error + (heap \<times> query)" where
  "UnboundLoad_process' E h order q raiseerr =
     (let context = length (dicts h);
          h0 = h\<lparr>dicts := dicts h @ [Map.empty]\<rparr>
      in case bind_all E h0 order q context raiseerr of
           Inl e \<Rightarrow> Inl e
         | Inr h1 \<Rightarrow> Inr (h1, q\<lparr>attributes' := attributes' q ++ (dicts h1 ! context)\<rparr>))"

definition UnboundLoad_process_query ::
  "env \<Rightarrow> heap \<Rightarrow> nat list \<Rightarrow> query \<Rightarrow> error + (heap \<times> query)" where
  "UnboundLoad_process_query E h order q = UnboundLoad_process' E h order q True"

definition UnboundLoad_process_query_conditionally ::
  "env \<Rightarrow> heap \<Rightarrow> nat list \<Rightarrow> query \<Rightarrow> error + (heap \<times> query)" where
  "UnboundLoad_process_query_conditionally E h order q = UnboundLoad_process' E h order q False"

definition iteration_of :: "heap \<Rightarrow> nat \<Rightarrow> nat list \<Rightarrow> bool" where
  "iteration_of h self order =
     (distinct order \<and> set order = set (sets h ! to_bind' (objs h ! self)))"

subsection \<open>\<^verbatim>\<open>PropertyOption\<close>: finding the entity of the first token\<close>

definition PropertyOption_find_entity_prop_comparator' ::
  "env \<Rightarrow> query \<Rightarrow> string \<Rightarrow> entity \<Rightarrow> bool \<Rightarrow> error + mapper_entity option" where
  "PropertyOption_find_entity_prop_comparator' E q token m raiseerr =
     (case find (\<lambda>ent. corresponds_to E ent (searchfor_of m)) (mapper_entities' q) of
        Some ent \<Rightarrow> Inr (Some ent)
      | None \<Rightarrow>
          if raiseerr then
            if mapper_entities' q = []
            then Inl (ArgumentError (Only_expression_based_entities token))
            else Inl (ArgumentError (Cant_find_property_on_any_entity token))
          else Inr None)"

definition PropertyOption_find_entity_basestring' ::
  "query \<Rightarrow> string \<Rightarrow> bool \<Rightarrow> error + mapper_entity option" where
  "PropertyOption_find_entity_basestring' q token raiseerr =
     (case mapper_entities' q of
        ent # _ \<Rightarrow> Inr (Some ent)
      | [] \<Rightarrow>
          if raiseerr then Inl (ArgumentError (Only_expression_based_entities token))
          else Inr None)"

subsection \<open>Names the module does not bind\<close>

text \<open>
  \<^verbatim>\<open>strategy_options.py\<close> imports \<^verbatim>\<open>MapperOption\<close>, \<^verbatim>\<open>PropComparator\<close>, \<^verbatim>\<open>util\<close>,
  \<^verbatim>\<open>_generative\<close>, \<^verbatim>\<open>Generative\<close>, \<^verbatim>\<open>sa_exc\<close>, \<^verbatim>\<open>inspect\<close>, \<^verbatim>\<open>_is_aliased_class\<close> and
  \<^verbatim>\<open>_class_to_mapper\<close>, and defines its classes and functions. Its code also reads the
  global names \<^verbatim>\<open>properties\<close>, \<^verbatim>\<open>sql_util\<close> and \<^verbatim>\<open>orm_util\<close>, which no statement of
  the module binds: reading one of them raises \<^verbatim>\<open>NameError\<close>. (\<^verbatim>\<open>Load._generate_path\<close>
  has a parameter \<^verbatim>\<open>orm_util\<close>, filled in by \<^verbatim>\<open>util.dependencies\<close>; the methods below
  have none.) A name is read as the module it would stand for, or fails.
\<close>

definition properties :: "error + unit" where
  "properties = Inl NameError"

definition sql_util :: "error + unit" where
  "sql_util = Inl NameError"

definition orm_util :: "error + unit" where
  "orm_util = Inl NameError"

subsection \<open>\<^verbatim>\<open>EagerLazyOption.__init__\<close>\<close>

record eager_lazy_option =
  elo_key :: "token list"
  elo_lazy :: lazy
  elo_chained :: bool
  elo_propagate_to_loaders :: bool
  elo_strategy_cls :: nat

text \<open>
  The guard looks at \<^verbatim>\<open>key[0]\<close> only. After it the attributes are assigned, the last of
  them from \<^verbatim>\<open>properties.RelationshipProperty._strategy_lookup(lazy=lazy)\<close>: the
  constructor answers the option when that name can be read, and raises otherwise.
\<close>

definition EagerLazyOption_init ::
  "env \<Rightarrow> token list \<Rightarrow> lazy \<Rightarrow> bool \<Rightarrow> bool \<Rightarrow> error + eager_lazy_option" where
  "EagerLazyOption_init E key lazy chained propagate_to_loaders =
     (case key of
        [] \<Rightarrow> Inl IndexError
      | k0 # _ \<Rightarrow>
          if k0 = TStr ''*'' then
            if length key \<noteq> 1 then Inl (ArgumentError Wildcard_must_be_specified_alone)
            else
              (case properties of
                 Inl e \<Rightarrow> Inl e
               | Inr m \<Rightarrow>
                   Inr \<lparr>elo_key = [TStr ''relationship:*''], elo_lazy = lazy,
                        elo_chained = chained, elo_propagate_to_loaders = False,
                        elo_strategy_cls = strategy_lookup' E lazy\<rparr>)
          else
            (case properties of
               Inl e \<Rightarrow> Inl e
             | Inr m \<Rightarrow>
                 Inr \<lparr>elo_key = key, elo_lazy = lazy, elo_chained = chained,
                      elo_propagate_to_loaders = propagate_to_loaders,
                      elo_strategy_cls = strategy_lookup' E lazy\<rparr>))"

subsection \<open>\<^verbatim>\<open>LoadEagerFromAliasOption.process_query_property\<close>\<close>

datatype alias_arg = Alias_name string | Alias_selectable selectable

record load_eager_from_alias_option =
  lefa_key :: "token list"
  lefa_alias :: "alias_arg option"
  lefa_chained :: bool

text \<open>\<^verbatim>\<open>(root_mapper, prop) = path.path[-2:]\<close>: the unpacking needs two elements.\<close>

definition last_two :: "path \<Rightarrow> error + (pelem \<times> pelem)" where
  "last_two p =
     (if length p < 2 then Inl ValueError
      else Inr (p ! (length p - 2), p ! (length p - 1)))"

text \<open>
  \<^verbatim>\<open>prop.mapper\<close> of a path element: the target of a relationship property; a column
  property and a token have none; a mapper or an alias answers its own mapper.
\<close>

definition elem_mapper :: "pelem \<Rightarrow> error + nat" where
  "elem_mapper x =
     (case x of
        PProp pr \<Rightarrow> (case prop_mapper pr of None \<Rightarrow> Inl AttributeError | Some m \<Rightarrow> Inr m)
      | PEnt e \<Rightarrow> Inr (mapper_of e)
      | PToken s \<Rightarrow> Inl AttributeError)"

definition table_adapter :: "query \<Rightarrow> nat \<Rightarrow> adapter option" where
  "table_adapter q m = map_option Polymorphic_adapter (polymorphic_adapters' q m)"

text \<open>
  The loop over \<^verbatim>\<open>paths[0:-1]\<close> of a chained option: the attributes as the loop leaves
  them, and the exception if one ended it.
\<close>

fun lefa_chain :: "query \<Rightarrow> ctx \<Rightarrow> path list \<Rightarrow> ctx \<times> error option" where
  "lefa_chain q attributes [] = (attributes, None)"
| "lefa_chain q attributes (p # ps) =
     (case last_two p of
        Inl e \<Rightarrow> (attributes, Some e)
      | Inr (root_mapper, pr) \<Rightarrow>
          (case elem_mapper pr of
             Inl e \<Rightarrow> (attributes, Some e)
           | Inr m \<Rightarrow>
               lefa_chain q
                 (path_setdefault attributes p ''user_defined_eager_row_processor''
                    (V_adapter (table_adapter q m)))
                 ps))"

text \<open>
  The method writes the query's attributes in place and may change \<^verbatim>\<open>self.alias\<close> (a
  name becomes an alias of the property's target): the result is the option and the
  query as the call leaves them, and the exception if one was raised.

  With an alias, the adapter is \<^verbatim>\<open>sql_util.ColumnAdapter(...)\<close>; without one and with a
  \<^verbatim>\<open>"path_with_polymorphic"\<close> entry for the last path, it is
  \<^verbatim>\<open>orm_util.ORMAdapter(...)\<close>. In both calls the name of the module is read before the
  arguments are. Without alias and without such an entry, the adapter comes from the
  query's table of polymorphic adapters.
\<close>

definition LoadEagerFromAliasOption_process_query_property ::
  "env \<Rightarrow> load_eager_from_alias_option \<Rightarrow> query \<Rightarrow> path list
     \<Rightarrow> (load_eager_from_alias_option \<times> query) \<times> error option" where
  "LoadEagerFromAliasOption_process_query_property E self q paths =
     (case (if lefa_chained self then lefa_chain q (attributes' q) (butlast paths)
            else (attributes' q, None)) of
        (a1, Some e) \<Rightarrow> ((self, q\<lparr>attributes' := a1\<rparr>), Some e)
      | (a1, None) \<Rightarrow>
          (let q1 = q\<lparr>attributes' := a1\<rparr> in
           if paths = [] then ((self, q1), Some IndexError)
           else
             (case last_two (last paths) of
                Inl e \<Rightarrow> ((self, q1), Some e)
              | Inr (root_mapper, pr) \<Rightarrow>
                  (case lefa_alias self of
                     Some al \<Rightarrow>
                       (case (case al of
                                Alias_name n \<Rightarrow>
                                  (case pr of
                                     PProp x \<Rightarrow> Inr (Target_alias (prop_target E x) n)
                                   | _ \<Rightarrow> Inl AttributeError)
                              | Alias_selectable s \<Rightarrow> Inr s) of
                          Inl e \<Rightarrow> ((self, q1), Some e)
                        | Inr s \<Rightarrow>
                            (let self1 = self\<lparr>lefa_alias := Some (Alias_selectable s)\<rparr> in
                             case sql_util of
                               Inl e \<Rightarrow> ((self1, q1), Some e)
                             | Inr m \<Rightarrow>
                                 (case elem_mapper pr of
                                    Inl e \<Rightarrow> ((self1, q1), Some e)
                                  | Inr pm \<Rightarrow>
                                      ((self1,
                                        q1\<lparr>attributes' :=
                                             path_set a1 (last paths) ''user_defined_eager_row_processor''
                                               (V_adapter (Some (ColumnAdapter s
                                                  (equivalent_columns' E pm))))\<rparr>),
                                       None))))
                   | None \<Rightarrow>
                       (case (if path_contains a1 (last paths) ''path_with_polymorphic'' then
                                (case path_get a1 (last paths) ''path_with_polymorphic'' of
                                   Inl e \<Rightarrow> Inl e
                                 | Inr with_poly_info \<Rightarrow>
                                     (case orm_util of
                                        Inl e \<Rightarrow> Inl e
                                      | Inr m \<Rightarrow>
                                          (case with_poly_info of
                                             V_info ent \<Rightarrow>
                                               (case elem_mapper pr of
                                                  Inl e \<Rightarrow> Inl e
                                                | Inr pm \<Rightarrow>
                                                    Inr (Some (ORMAdapter ent
                                                                 (equivalent_columns' E pm))))
                                           | _ \<Rightarrow> Inl AttributeError)))
                              else
                                (case elem_mapper pr of
                                   Inl e \<Rightarrow> Inl e
                                 | Inr pm \<Rightarrow> Inr (table_adapter q pm))) of
                          Inl e \<Rightarrow> ((self, q1), Some e)
                        | Inr adapter \<Rightarrow>
                            ((self,
                              q1\<lparr>attributes' :=
                                   path_set a1 (last paths) ''user_defined_eager_row_processor''
                                     (V_adapter adapter)\<rparr>),
                             None))))))"

section \<open>Notions used to state the properties\<close>

text \<open>The dictionary a single-row parameter set stands for; \<^verbatim>\<open>None\<close> holds no key.\<close>

definition params_map :: "'a pyval \<Rightarrow> string \<Rightarrow> 'a pyval option" where
  "params_map p = (case p of PDict d \<Rightarrow> map_of d | _ \<Rightarrow> Map.empty)"

text \<open>
  A dotted path matches an entity when each name is an attribute of the entity reached
  so far and every name but the last is a relationship: \<open>resolve\<close> answers the
  properties the names stand for.
\<close>

fun resolve :: "env \<Rightarrow> entity \<Rightarrow> string list \<Rightarrow> mprop list option" where
  "resolve E ent [] = Some []"
| "resolve E ent (t # ts) =
     (case attrs E ent t of
        None \<Rightarrow> None
      | Some pr \<Rightarrow>
          if ts = [] then Some [pr]
          else (case prop_mapper pr of
                  None \<Rightarrow> None
                | Some m \<Rightarrow> map_option ((#) pr) (resolve E (Mapper m) ts)))"

text \<open>
  The path from an entity along properties, ending on the last property:
  entity, property, entity, property, and so on.
\<close>

fun rel_path :: "entity \<Rightarrow> mprop list \<Rightarrow> path" where
  "rel_path ent [] = []"
| "rel_path ent (pr # prs) =
     PEnt ent # PProp pr #
       (case prop_mapper pr of
          None \<Rightarrow> []
        | Some m \<Rightarrow> rel_path (Mapper m) prs)"

text \<open>The same path, stepped on to the target entity when the last property has one.\<close>

definition full_path :: "entity \<Rightarrow> mprop list \<Rightarrow> path" where
  "full_path ent prs =
     (case prop_mapper (last prs) of
        None \<Rightarrow> rel_path ent prs
      | Some m \<Rightarrow> rel_path ent prs @ [PEnt (Mapper m)])"

text \<open>The keys of a context that hold a loader.\<close>

definition loader_keys :: "ctx \<Rightarrow> (string \<times> path) set" where
  "loader_keys c = {k \<in> dom c. fst k = ''loader''}"

text \<open>
  The successive token paths of a chain of options that starts from the path \<open>P\<close>, and
  the local options that \<^verbatim>\<open>joined\<close> leaves on a clone.
\<close>

fun chain :: "token list \<Rightarrow> string list \<Rightarrow> token list list" where
  "chain P [] = []"
| "chain P (t # ts) = (P @ [TStr t]) # chain (P @ [TStr t]) ts"

definition joined_opts :: "bool option \<Rightarrow> (string \<times> ctx_val) list" where
  "joined_opts innerjoin =
     (case innerjoin of None \<Rightarrow> [] | Some b \<Rightarrow> [(''eager_join_type'', V_bool b)])"

text \<open>An option of a chain as \<^verbatim>\<open>joined\<close> leaves it in the heap.\<close>

definition chain_obj :: "nat \<Rightarrow> bool option \<Rightarrow> token list \<Rightarrow> unbound_load" where
  "chain_obj s innerjoin P =
     \<lparr>ub_path = P, ub_strategy = Some joined_strategy, to_bind' = s,
      local_opts = joined_opts innerjoin\<rparr>"

text \<open>
  The bound loader for the first \<open>j\<close> properties, and the entries that binding the
  option for these properties writes into a context at address \<open>ca\<close>.
\<close>

definition chain_loader :: "entity \<Rightarrow> mprop list \<Rightarrow> nat \<Rightarrow> nat \<Rightarrow> load" where
  "chain_loader ent props ca j =
     \<lparr>load_path = full_path ent (take j props), load_context = ca,
      load_strategy = Some joined_strategy\<rparr>"

definition chain_writes :: "entity \<Rightarrow> mprop list \<Rightarrow> nat \<Rightarrow> bool option \<Rightarrow> nat \<Rightarrow> ctx \<Rightarrow> ctx" where
  "chain_writes ent props ca innerjoin j c =
     (case innerjoin of
        None \<Rightarrow> c((''loader'', rel_path ent (take j props)) \<mapsto> V_loader (chain_loader ent props ca j))
      | Some b \<Rightarrow>
          (c((''loader'', rel_path ent (take j props)) \<mapsto> V_loader (chain_loader ent props ca j)))
            ((''eager_join_type'', rel_path ent (take j props)) \<mapsto> V_bool b))"

text \<open>The path that a list of (entity, property) pairs spells out.\<close>

definition path_of_pairs :: "(entity \<times> mprop) list \<Rightarrow> path" where
  "path_of_pairs ps = concat (map (\<lambda>(e, pr). [PEnt e, PProp pr]) ps)"

section \<open>A small mapping, used for the concrete instances\<close>

text \<open>
  Four mapped classes: User (0), Address (1), Order (2) and Item (3), with the
  relationships \<^verbatim>\<open>User.orders\<close>, \<^verbatim>\<open>User.addresses\<close>, \<^verbatim>\<open>Address.user\<close>, \<^verbatim>\<open>Order.items\<close>,
  \<^verbatim>\<open>Order.user\<close> and the column \<^verbatim>\<open>Item.name\<close>.
\<close>

definition User_orders :: mprop where
  "User_orders = \<lparr>prop_key = ''orders'', prop_parent = 0, prop_mapper = Some 2\<rparr>"

definition User_addresses :: mprop where
  "User_addresses = \<lparr>prop_key = ''addresses'', prop_parent = 0, prop_mapper = Some 1\<rparr>"

definition Address_user :: mprop where
  "Address_user = \<lparr>prop_key = ''user'', prop_parent = 1, prop_mapper = Some 0\<rparr>"

definition Order_items :: mprop where
  "Order_items = \<lparr>prop_key = ''items'', prop_parent = 2, prop_mapper = Some 3\<rparr>"

definition Order_user :: mprop where
  "Order_user = \<lparr>prop_key = ''user'', prop_parent = 2, prop_mapper = Some 0\<rparr>"

definition Item_name :: mprop where
  "Item_name = \<lparr>prop_key = ''name'', prop_parent = 3, prop_mapper = None\<rparr>"

definition class_props :: "nat \<Rightarrow> (string \<times> mprop) list" where
  "class_props m =
     (if m = 0 then [(''orders'', User_orders), (''addresses'', User_addresses)]
      else if m = 1 then [(''user'', Address_user)]
      else if m = 2 then [(''items'', Order_items), (''user'', Order_user)]
      else if m = 3 then [(''name'', Item_name)]
      else [])"

definition E0 :: env where
  "E0 = \<lparr>attrs = (\<lambda>e s. map_of (class_props (mapper_of e)) s),
          class_attr = (\<lambda>m s. map_of (class_props m) s),
          base_mapper = (\<lambda>m. m),
          corresponds_to = (\<lambda>ent e. e = entity_zero ent),
          common_parent = (\<lambda>m m'. m = m'),
          equivalent_columns' = (\<lambda>m. m),
          prop_target = (\<lambda>pr. case prop_mapper pr of None \<Rightarrow> 0 | Some m \<Rightarrow> m),
          strategy_lookup' = (\<lambda>l. case l of Lazy_True \<Rightarrow> 0 | Lazy_False \<Rightarrow> 1
                                       | Lazy_None \<Rightarrow> 2 | Lazy_str s \<Rightarrow> 3)\<rparr>"

definition attr_of :: "mprop \<Rightarrow> token" where
  "attr_of pr = TAttr \<lparr>cmp_property = pr, cmp_parententity' = Mapper (prop_parent pr),
                      cmp_of_type' = None\<rparr>"

definition query_of :: "nat list \<Rightarrow> path \<Rightarrow> query" where
  "query_of ms cur =
     \<lparr>mapper_entities' = map (\<lambda>m. \<lparr>entity_zero = Mapper m, ent_mapper = m\<rparr>) ms,
      current_path' = cur, attributes' = Map.empty, polymorphic_adapters' = (\<lambda>m. None)\<rparr>"

definition empty_heap :: heap where
  "empty_heap = \<lparr>objs = [], sets = [], dicts = []\<rparr>"

definition insert0 :: "(nat, string) values_base" where
  "insert0 = \<lparr>table_c = [''id'', ''name''], returning' = None,
              supports_multi_parameters' = True, parameters = PNone,
              has_multi_parameters' = False, select = PNone, return_defaults' = RD_False\<rparr>"

definition update0 :: "(nat, string) values_base" where
  "update0 = insert0\<lparr>supports_multi_parameters' := False\<rparr>"

text \<open>
  A query on User in whose attributes a polymorphic load is recorded for
  \<^verbatim>\<open>User.orders\<close>, and whose polymorphic-adapter table answers adapter 7 for any mapper.
\<close>

definition poly_query :: query where
  "poly_query =
     \<lparr>mapper_entities' = [\<lparr>entity_zero = Mapper 0, ent_mapper = 0\<rparr>],
      current_path' = [],
      attributes' = [(''path_with_polymorphic'', [PEnt (Mapper 0), PProp User_orders])
                       \<mapsto> V_info (With_polymorphic 2 2)],
      polymorphic_adapters' = (\<lambda>m. Some 7)\<rparr>"

text \<open>The option \<^verbatim>\<open>joinedload(Address.user)\<close>, built on an empty heap.\<close>

definition joinedload_Address_user :: "heap \<times> nat" where
  "joinedload_Address_user =
     (let (h, opt) = UnboundLoad_init empty_heap
      in UnboundLoad_joined h opt (attr_of Address_user) None)"

text \<open>The option \<^verbatim>\<open>joinedload_all(User.orders, Order.items)\<close>, built on an empty heap.\<close>

definition joinedload_all_orders_items :: "heap \<times> nat" where
  "joinedload_all_orders_items =
     (let (h, opt) = UnboundLoad_init empty_heap;
          (h1, opt1) = UnboundLoad_joined h opt (attr_of User_orders) None
      in UnboundLoad_joined h1 opt1 (attr_of Order_items) None)"

section \<open>Properties\<close>

lemma dict_update_map_of: "map_of (dict_update d p) = map_of d ++ map_of (rev p)"
  unfolding dict_update_def
proof (induction p arbitrary: d)
  case Nil
  show ?case by simp
next
  case (Cons kv p)
  obtain k v where kv: "kv = (k, v)" by (cases kv)
  have "map_of (fold (\<lambda>(k, v). AList.update k v) p (AList.update k v d))
          = map_of (AList.update k v d) ++ map_of (rev p)"
    by (rule Cons.IH)
  also have "\<dots> = (map_of d)(k \<mapsto> v) ++ map_of (rev p)"
    by (simp add: update_conv')
  also have "\<dots> = map_of d ++ map_of (rev p @ [(k, v)])"
    by (simp add: fun_eq_iff map_add_def split: option.splits)
  finally show ?case by (simp add: kv)
qed

lemma map_of_rev_distinct_keys: "distinct (map fst p) \<Longrightarrow> map_of (rev p) = map_of p"
proof -
  assume d: "distinct (map fst p)"
  have "distinct (map fst (rev p))" using d unfolding rev_map[symmetric] by simp
  from map_of_inject_set[OF this d] show ?thesis by simp
qed

lemma dict_update_merge:
  "distinct (map fst p) \<Longrightarrow> map_of (dict_update d p) = map_of d ++ map_of p"
  by (simp add: dict_update_map_of map_of_rev_distinct_keys)

lemma generative_ok:
  "self < length h \<Longrightarrow> body (h ! self) = Inr s' \<Longrightarrow>
     generative' body h self = Inr (h @ [s'], length h)"
  by (simp add: generative'_def generate'_def nth_append)

lemma generative_err:
  "self < length h \<Longrightarrow> body (h ! self) = Inl e \<Longrightarrow> generative' body h self = Inl e"
  by (simp add: generative'_def generate'_def nth_append)

lemma returning_eq:
  "self < length h \<Longrightarrow> returning h self cols = Inr (h @ [(h ! self)\<lparr>returning' := Some cols\<rparr>], length h)"
  by (simp add: returning_def returning_body_def generative_ok)

lemma return_defaults_eq:
  "self < length h \<Longrightarrow> return_defaults h self cols =
     Inr (h @ [(h ! self)\<lparr>return_defaults' := (if cols \<noteq> [] then RD_Cols cols else RD_True)\<rparr>], length h)"
  by (simp add: return_defaults_def return_defaults_body_def generative_ok)

text \<open>
  Claim C10. For a statement \<open>s\<close> and column tuples \<open>a\<close> and \<open>b\<close>,
  \<^verbatim>\<open>s.returning(*a).returning(*b)\<close> carries exactly the column list \<open>b\<close>: the second
  call replaces the list the first one set. Both calls answer new objects, and every
  object of the heap that existed before, \<open>s\<close> among them, is left as it was.
\<close>

theorem returning_twice_replaces:
  assumes "self < length h"
  shows "\<exists>h1 s1 h2 s2.
           returning h self a = Inr (h1, s1) \<and> returning h1 s1 b = Inr (h2, s2)
         \<and> returning' (h2 ! s2) = Some b
         \<and> h2 ! s2 = (h ! self)\<lparr>returning' := Some b\<rparr>
         \<and> s1 \<noteq> self \<and> s2 \<noteq> self \<and> s2 \<noteq> s1
         \<and> take (length h) h1 = h \<and> take (length h) h2 = h \<and> h2 ! self = h ! self"
  using assms by (simp add: returning_eq nth_append)


theorem returning_twice_replaces_witness:
  "(0::nat) < length [insert0] \<and>
   (\<exists>h1 s1 h2 s2.
           returning [insert0] 0 [''id''] = Inr (h1, s1) \<and> returning h1 s1 [''name''] = Inr (h2, s2)
         \<and> returning' (h2 ! s2) = Some [''name'']
         \<and> h2 ! s2 = ([insert0] ! 0)\<lparr>returning' := Some [''name'']\<rparr>
         \<and> s1 \<noteq> 0 \<and> s2 \<noteq> 0 \<and> s2 \<noteq> s1
         \<and> take (length [insert0]) h1 = [insert0] \<and> take (length [insert0]) h2 = [insert0] \<and> h2 ! 0 = [insert0] ! 0)"
  using returning_twice_replaces[of 0 "[insert0]" "[''id'']" "[''name'']"] by simp

text \<open>
  Claim C6. \<^verbatim>\<open>returning()\<close> and \<^verbatim>\<open>return_defaults()\<close> write two different attributes:
  in either order the result holds the RETURNING list of the one and the directive of
  the other, neither call changes what the other one set, and \<^verbatim>\<open>return_defaults()\<close>
  without arguments records the sentinel \<open>True\<close>, not an empty list.
\<close>

theorem returning_return_defaults_independent:
  assumes "self < length h"
  shows "(\<exists>h1 s1 h2 s2.
            returning h self cs = Inr (h1, s1) \<and> return_defaults h1 s1 ds = Inr (h2, s2)
          \<and> return_defaults' (h1 ! s1) = return_defaults' (h ! self)
          \<and> returning' (h2 ! s2) = Some cs
          \<and> return_defaults' (h2 ! s2) = (if ds = [] then RD_True else RD_Cols ds))
       \<and> (\<exists>h1 s1 h2 s2.
            return_defaults h self ds = Inr (h1, s1) \<and> returning h1 s1 cs = Inr (h2, s2)
          \<and> returning' (h1 ! s1) = returning' (h ! self)
          \<and> returning' (h2 ! s2) = Some cs
          \<and> return_defaults' (h2 ! s2) = (if ds = [] then RD_True else RD_Cols ds))
       \<and> (\<exists>h1 s1. return_defaults h self [] = Inr (h1, s1) \<and> return_defaults' (h1 ! s1) = RD_True)"
  using assms by (simp add: returning_eq return_defaults_eq nth_append)


lemma values_single_step:
  assumes "self < length h" and "select (h ! self) = PNone"
    and "\<not> has_multi_parameters' (h ! self)"
    and "parameters (h ! self) = PNone \<or> parameters (h ! self) = PDict d0"
  shows "values_meth h self [PDict d] [] =
           Inr (h @ [(h ! self)\<lparr>parameters :=
                        (if parameters (h ! self) = PNone then PDict d
                         else PDict (dict_update d0 d)),
                      has_multi_parameters' := False\<rparr>], length h)"
  using assms
  by (auto simp: values_meth_def values_body_def values_args_def values_kwargs_def
        process_colparams'_def process_single_def py_dict_update_def generative_ok)

lemma values_multi_after_single:
  assumes "self < length h" and "select (h ! self) = PNone"
    and "\<not> has_multi_parameters' (h ! self)" and "parameters (h ! self) = PDict d0"
  shows "values_meth h self [PSeq (PDict r # rs)] [] =
           Inl (if supports_multi_parameters' (h ! self)
                then ArgumentError Cant_mix_single_and_multiple_values
                else InvalidRequestError Does_not_support_multiple_parameter_sets)"
  using assms
  by (auto simp: values_meth_def values_body_def values_args_def values_kwargs_def
        process_colparams'_def process_single_def py_dict_update_def generative_err)

lemma values_multi_first:
  assumes "self < length h" and "select (h ! self) = PNone"
    and "parameters (h ! self) = PNone" and "supports_multi_parameters' (h ! self)"
  shows "values_meth h self [PSeq (PDict r # rs)] [] =
           Inr (h @ [(h ! self)\<lparr>parameters :=
                        PSeq (map (process_single (table_c (h ! self))) (PDict r # rs)),
                      has_multi_parameters' := True\<rparr>], length h)"
  using assms
  by (auto simp: values_meth_def values_body_def values_args_def values_kwargs_def
        process_colparams'_def generative_ok)

lemma values_multi_again:
  assumes "self < length h" and "select (h ! self) = PNone"
    and "parameters (h ! self) = PSeq xs" and "has_multi_parameters' (h ! self)"
    and "supports_multi_parameters' (h ! self)"
  shows "values_meth h self [PSeq (PDict r # rs)] [] =
           Inr (h @ [(h ! self)\<lparr>parameters :=
                        PSeq (xs @ map (process_single (table_c (h ! self))) (PDict r # rs)),
                      has_multi_parameters' := True\<rparr>], length h)"
  using assms
  by (auto simp: values_meth_def values_body_def values_args_def values_kwargs_def
        process_colparams'_def py_list_def generative_ok)

lemma process_single_PDict: "process_single cols (PDict d) = PDict d"
  by (simp add: process_single_def)

lemma process_single_dicts: "map (process_single cols) (map PDict ds) = map PDict ds"
  by (induction ds) (simp_all add: process_single_PDict)


lemma values_twice_single:
  assumes "self < length h" and "select (h ! self) = PNone"
    and "\<not> has_multi_parameters' (h ! self)"
    and "parameters (h ! self) = PNone \<or> (\<exists>d0. parameters (h ! self) = PDict d0)"
    and "distinct (map fst d1)" and "distinct (map fst d2)"
  shows "\<exists>h1 s1 h2 s2 d.
           values_meth h self [PDict d1] [] = Inr (h1, s1)
         \<and> values_meth h1 s1 [PDict d2] [] = Inr (h2, s2)
         \<and> parameters (h2 ! s2) = PDict d
         \<and> map_of d = params_map (parameters (h ! self)) ++ map_of d1 ++ map_of d2
         \<and> \<not> has_multi_parameters' (h2 ! s2)
         \<and> h2 ! self = h ! self"
proof -
  from assms(4) obtain d0 where d0: "parameters (h ! self) = PNone \<or> parameters (h ! self) = PDict d0"
    by blast
  define p1 where "p1 = (if parameters (h ! self) = PNone then d1 else dict_update d0 d1)"
  define o1 where "o1 = (h ! self)\<lparr>parameters := PDict p1, has_multi_parameters' := False\<rparr>"
  have step1: "values_meth h self [PDict d1] [] = Inr (h @ [o1], length h)"
    using values_single_step[OF assms(1,2,3) d0, of d1] by (simp add: o1_def p1_def)
  have pre: "length h < length (h @ [o1])" "select ((h @ [o1]) ! length h) = PNone"
    "\<not> has_multi_parameters' ((h @ [o1]) ! length h)"
    "parameters ((h @ [o1]) ! length h) = PNone \<or> parameters ((h @ [o1]) ! length h) = PDict p1"
    using assms(2) by (simp_all add: o1_def)
  have step2: "values_meth (h @ [o1]) (length h) [PDict d2] [] =
      Inr (h @ [o1] @ [o1\<lparr>parameters := PDict (dict_update p1 d2), has_multi_parameters' := False\<rparr>],
           Suc (length h))"
    using values_single_step[OF pre, of d2] by (simp add: o1_def)
  have m: "map_of (dict_update p1 d2) = params_map (parameters (h ! self)) ++ map_of d1 ++ map_of d2"
    using d0 assms(5,6) by (auto simp: p1_def params_map_def dict_update_merge)
  show ?thesis
    using step1 step2 m assms(1) by (simp add: nth_append o1_def)
qed

lemma values_list_after_single:
  assumes "self < length h" and "select (h ! self) = PNone"
    and "\<not> has_multi_parameters' (h ! self)"
    and "parameters (h ! self) = PNone \<or> (\<exists>d0. parameters (h ! self) = PDict d0)"
  shows "\<exists>h1 s1.
           values_meth h self [PDict d1] [] = Inr (h1, s1)
         \<and> values_meth h1 s1 [PSeq (map PDict (r # rs))] [] =
             Inl (if supports_multi_parameters' (h ! self)
                  then ArgumentError Cant_mix_single_and_multiple_values
                  else InvalidRequestError Does_not_support_multiple_parameter_sets)"
proof -
  from assms(4) obtain d0 where d0: "parameters (h ! self) = PNone \<or> parameters (h ! self) = PDict d0"
    by blast
  define p1 where "p1 = (if parameters (h ! self) = PNone then d1 else dict_update d0 d1)"
  define o1 where "o1 = (h ! self)\<lparr>parameters := PDict p1, has_multi_parameters' := False\<rparr>"
  have step1: "values_meth h self [PDict d1] [] = Inr (h @ [o1], length h)"
    using values_single_step[OF assms(1,2,3) d0, of d1] by (simp add: o1_def p1_def)
  have pre: "length h < length (h @ [o1])" "select ((h @ [o1]) ! length h) = PNone"
    "\<not> has_multi_parameters' ((h @ [o1]) ! length h)"
    "parameters ((h @ [o1]) ! length h) = PDict p1"
    using assms(2) by (simp_all add: o1_def)
  show ?thesis
    using step1 values_multi_after_single[OF pre, of r "map PDict rs"]
    by (simp add: o1_def)
qed

lemma values_list_twice:
  assumes "self < length h" and "select (h ! self) = PNone"
    and "parameters (h ! self) = PNone" and "supports_multi_parameters' (h ! self)"
  shows "\<exists>h1 s1 h2 s2.
           values_meth h self [PSeq (map PDict (r1 # rs1))] [] = Inr (h1, s1)
         \<and> values_meth h1 s1 [PSeq (map PDict (r2 # rs2))] [] = Inr (h2, s2)
         \<and> parameters (h2 ! s2) = PSeq (map PDict ((r1 # rs1) @ (r2 # rs2)))
         \<and> has_multi_parameters' (h2 ! s2)
         \<and> h2 ! self = h ! self"
proof -
  define o1 where "o1 = (h ! self)\<lparr>parameters := PSeq (map PDict (r1 # rs1)),
                                    has_multi_parameters' := True\<rparr>"
  have ps: "\<And>c r rs. map (process_single c) (PDict r # map PDict rs) = PDict r # map PDict rs"
    using process_single_dicts[of c "r # rs" for c r rs] by simp
  have step1: "values_meth h self [PSeq (map PDict (r1 # rs1))] [] = Inr (h @ [o1], length h)"
    using values_multi_first[OF assms, of r1 "map PDict rs1"] unfolding ps by (simp add: o1_def)
  have pre: "length h < length (h @ [o1])" "select ((h @ [o1]) ! length h) = PNone"
    "parameters ((h @ [o1]) ! length h) = PSeq (map PDict (r1 # rs1))"
    "has_multi_parameters' ((h @ [o1]) ! length h)"
    "supports_multi_parameters' ((h @ [o1]) ! length h)"
    using assms(2,4) by (simp_all add: o1_def)
  show ?thesis
    using step1 values_multi_again[OF pre, of r2 "map PDict rs2"] assms(1)
    unfolding ps by (simp add: o1_def nth_append)
qed

lemma values_list_unsupported:
  assumes "self < length h" and "select (h ! self) = PNone"
    and "parameters (h ! self) = PNone" and "\<not> supports_multi_parameters' (h ! self)"
  shows "values_meth h self [PSeq (map PDict (r1 # rs1))] [] =
           Inl (InvalidRequestError Does_not_support_multiple_parameter_sets)"
  using assms
  by (auto simp: values_meth_def values_body_def values_args_def values_kwargs_def
        process_colparams'_def generative_err)

text \<open>
  Claim C5, amended. On a builder with no SELECT and a single-row (or no) parameter
  set: two \<^verbatim>\<open>values()\<close> calls with dictionaries give the key-wise merge of what the
  builder held and the two dictionaries, the later call winning; a list of dictionaries
  after a single-row call raises the mixing error on a construct that supports
  multiple parameter sets (INSERT) and the unsupported-operation error on one that does
  not (UPDATE); on a fresh INSERT two lists of dictionaries are concatenated, and on a
  fresh UPDATE the first list already raises the unsupported-operation error.
\<close>

theorem values_accumulate:
  assumes "self < length h" and "select (h ! self) = PNone"
    and "\<not> has_multi_parameters' (h ! self)"
    and "parameters (h ! self) = PNone \<or> (\<exists>d0. parameters (h ! self) = PDict d0)"
    and "distinct (map fst d1)" and "distinct (map fst d2)"
  shows "(\<exists>h1 s1 h2 s2 d.
            values_meth h self [PDict d1] [] = Inr (h1, s1)
          \<and> values_meth h1 s1 [PDict d2] [] = Inr (h2, s2)
          \<and> parameters (h2 ! s2) = PDict d
          \<and> map_of d = params_map (parameters (h ! self)) ++ map_of d1 ++ map_of d2
          \<and> \<not> has_multi_parameters' (h2 ! s2)
          \<and> h2 ! self = h ! self)
       \<and> (\<exists>h1 s1.
            values_meth h self [PDict d1] [] = Inr (h1, s1)
          \<and> values_meth h1 s1 [PSeq (map PDict (r # rs))] [] =
              Inl (if supports_multi_parameters' (h ! self)
                   then ArgumentError Cant_mix_single_and_multiple_values
                   else InvalidRequestError Does_not_support_multiple_parameter_sets))
       \<and> (parameters (h ! self) = PNone \<and> supports_multi_parameters' (h ! self) \<longrightarrow>
            (\<exists>h1 s1 h2 s2.
               values_meth h self [PSeq (map PDict (r1 # rs1))] [] = Inr (h1, s1)
             \<and> values_meth h1 s1 [PSeq (map PDict (r2 # rs2))] [] = Inr (h2, s2)
             \<and> parameters (h2 ! s2) = PSeq (map PDict ((r1 # rs1) @ (r2 # rs2)))
             \<and> has_multi_parameters' (h2 ! s2)
             \<and> h2 ! self = h ! self))
       \<and> (parameters (h ! self) = PNone \<and> \<not> supports_multi_parameters' (h ! self) \<longrightarrow>
            values_meth h self [PSeq (map PDict (r1 # rs1))] [] =
              Inl (InvalidRequestError Does_not_support_multiple_parameter_sets))"
  using values_twice_single[OF assms] values_list_after_single[OF assms(1-4)]
        values_list_twice[OF assms(1,2)] values_list_unsupported[OF assms(1,2)]
  by blast

text \<open>
  The claim as stated, with the mixing error for every INSERT and UPDATE, fails on an
  UPDATE: after \<^verbatim>\<open>values({"name": 1})\<close> the call \<^verbatim>\<open>values([{"name": 2}])\<close> raises
  \<^verbatim>\<open>InvalidRequestError\<close> (the construct does not support multiple parameter sets), not
  the mixing error.
\<close>

theorem values_update_list_counterexample:
  "values_meth [update0] 0 [PDict [(''name'', PAtom 1)]] []
     = Inr ([update0, update0\<lparr>parameters := PDict [(''name'', PAtom 1)]\<rparr>], 1)
   \<and> values_meth [update0, update0\<lparr>parameters := PDict [(''name'', PAtom 1)]\<rparr>] 1
        [PSeq [PDict [(''name'', PAtom 2)]]] []
     = Inl (InvalidRequestError Does_not_support_multiple_parameter_sets)"
  by (simp add: values_meth_def values_body_def values_args_def values_kwargs_def
        process_colparams'_def process_single_def generative'_def generate'_def
        update0_def insert0_def)


theorem values_accumulate_witness:
  "(0::nat) < length [insert0] \<and> select ([insert0] ! 0) = PNone
   \<and> \<not> has_multi_parameters' ([insert0] ! 0) \<and> parameters ([insert0] ! 0) = PNone
   \<and> distinct (map fst [(''id'', PAtom (1::nat))])
   \<and> distinct (map fst [(''id'', PAtom (2::nat)), (''name'', PAtom 3)])
   \<and> (\<exists>h1 s1 h2 s2 d.
            values_meth [insert0] 0 [PDict [(''id'', PAtom 1)]] [] = Inr (h1, s1)
          \<and> values_meth h1 s1 [PDict [(''id'', PAtom 2), (''name'', PAtom 3)]] [] = Inr (h2, s2)
          \<and> parameters (h2 ! s2) = PDict d
          \<and> map_of d = [''id'' \<mapsto> PAtom 2, ''name'' \<mapsto> PAtom 3])
   \<and> (\<exists>h1 s1.
            values_meth [insert0] 0 [PDict [(''id'', PAtom 1)]] [] = Inr (h1, s1)
          \<and> values_meth h1 s1 [PSeq (map PDict [[(''id'', PAtom 4)]])] [] =
              Inl (ArgumentError Cant_mix_single_and_multiple_values))
   \<and> (\<exists>h1 s1 h2 s2.
            values_meth [insert0] 0 [PSeq (map PDict [[(''id'', PAtom 5)]])] [] = Inr (h1, s1)
          \<and> values_meth h1 s1 [PSeq (map PDict [[(''id'', PAtom 6)], [(''id'', PAtom 7)]])] []
              = Inr (h2, s2)
          \<and> parameters (h2 ! s2)
              = PSeq (map PDict [[(''id'', PAtom 5)], [(''id'', PAtom 6)], [(''id'', PAtom 7)]]))
   \<and> (0::nat) < length [update0] \<and> \<not> supports_multi_parameters' ([update0] ! 0)
   \<and> values_meth [update0] 0 [PSeq (map PDict [[(''id'', PAtom 5)]])] [] =
         Inl (InvalidRequestError Does_not_support_multiple_parameter_sets)"
proof -
  have i: "(0::nat) < length [insert0]" "select ([insert0] ! 0) = PNone"
    "\<not> has_multi_parameters' ([insert0] ! 0)"
    "parameters ([insert0] ! 0) = PNone \<or> (\<exists>d0. parameters ([insert0] ! 0) = PDict d0)"
    "supports_multi_parameters' ([insert0] ! 0)" "parameters ([insert0] ! 0) = PNone"
    by (simp_all add: insert0_def)
  have u: "(0::nat) < length [update0]" "select ([update0] ! 0) = PNone"
    "\<not> has_multi_parameters' ([update0] ! 0)"
    "parameters ([update0] ! 0) = PNone \<or> (\<exists>d0. parameters ([update0] ! 0) = PDict d0)"
    "\<not> supports_multi_parameters' ([update0] ! 0)" "parameters ([update0] ! 0) = PNone"
    by (simp_all add: update0_def insert0_def)
  have d: "distinct (map fst [(''id'', PAtom (1::nat))])"
    "distinct (map fst [(''id'', PAtom (2::nat)), (''name'', PAtom 3)])"
    by simp_all
  have m: "params_map PNone ++ map_of [(''id'', PAtom (1::nat))]
             ++ map_of [(''id'', PAtom 2), (''name'', PAtom 3)]
           = [''id'' \<mapsto> PAtom 2, ''name'' \<mapsto> PAtom 3]"
    by (auto simp: params_map_def fun_eq_iff map_add_def)
  from values_accumulate[OF i(1-4) d, of "[(''id'', PAtom 4)]" "[]"
         "[(''id'', PAtom 5)]" "[]" "[(''id'', PAtom 6)]" "[[(''id'', PAtom 7)]]"]
       values_accumulate[OF u(1-4) d, of "[(''id'', PAtom 4)]" "[]"
         "[(''id'', PAtom 5)]" "[]" "[(''id'', PAtom 6)]" "[[(''id'', PAtom 7)]]"]
  show ?thesis
    using i u d m by simp blast
qed

theorem returning_return_defaults_independent_witness:
  "(0::nat) < length [insert0]
   \<and> (\<exists>h1 s1 h2 s2.
            returning [insert0] 0 [''id''] = Inr (h1, s1) \<and> return_defaults h1 s1 [] = Inr (h2, s2)
          \<and> returning' (h2 ! s2) = Some [''id'']
          \<and> return_defaults' (h2 ! s2) = RD_True)
   \<and> (\<exists>h1 s1 h2 s2.
            return_defaults [insert0] 0 [''name''] = Inr (h1, s1)
          \<and> returning h1 s1 [''id''] = Inr (h2, s2)
          \<and> returning' (h2 ! s2) = Some [''id'']
          \<and> return_defaults' (h2 ! s2) = RD_Cols [''name''])"
  using returning_return_defaults_independent[of 0 "[insert0]" "[''id'']" "[]"]
        returning_return_defaults_independent[of 0 "[insert0]" "[''id'']" "[''name'']"]
  by simp blast

text \<open>
  Claim C9. Both \<^verbatim>\<open>_find_entity_basestring\<close> methods answer the first mapper entity of
  the query whatever the token is; they raise, with the argument error about a query of
  expression-based entities only, exactly when the query has no mapper entity and the
  raise flag is set, and answer \<^verbatim>\<open>None\<close> when it has none and the flag is not set.
\<close>

theorem find_entity_basestring_first_entity:
  "(mapper_entities' q \<noteq> [] \<longrightarrow>
      UnboundLoad_find_entity_basestring' q token raiseerr = Inr (Some (hd (mapper_entities' q)))
    \<and> PropertyOption_find_entity_basestring' q token raiseerr = Inr (Some (hd (mapper_entities' q))))
 \<and> (mapper_entities' q = [] \<and> raiseerr \<longrightarrow>
      UnboundLoad_find_entity_basestring' q token raiseerr
        = Inl (ArgumentError (Only_expression_based_entities token))
    \<and> PropertyOption_find_entity_basestring' q token raiseerr
        = Inl (ArgumentError (Only_expression_based_entities token)))
 \<and> (mapper_entities' q = [] \<and> \<not> raiseerr \<longrightarrow>
      UnboundLoad_find_entity_basestring' q token raiseerr = Inr None
    \<and> PropertyOption_find_entity_basestring' q token raiseerr = Inr None)
 \<and> ((\<exists>e. UnboundLoad_find_entity_basestring' q token raiseerr = Inl e)
        = (mapper_entities' q = [] \<and> raiseerr))
 \<and> ((\<exists>e. PropertyOption_find_entity_basestring' q token raiseerr = Inl e)
        = (mapper_entities' q = [] \<and> raiseerr))"
  by (cases "mapper_entities' q")
     (simp_all add: UnboundLoad_find_entity_basestring'_def
        PropertyOption_find_entity_basestring'_def)

theorem find_entity_basestring_first_entity_witness:
  "mapper_entities' (query_of [0, 2] []) \<noteq> []
   \<and> UnboundLoad_find_entity_basestring' (query_of [0, 2] []) ''items'' True
       = Inr (Some \<lparr>entity_zero = Mapper 0, ent_mapper = 0\<rparr>)
   \<and> PropertyOption_find_entity_basestring' (query_of [0, 2] []) ''items'' True
       = Inr (Some \<lparr>entity_zero = Mapper 0, ent_mapper = 0\<rparr>)
   \<and> mapper_entities' (query_of [] []) = []
   \<and> UnboundLoad_find_entity_basestring' (query_of [] []) ''items'' True
       = Inl (ArgumentError (Only_expression_based_entities ''items''))
   \<and> PropertyOption_find_entity_basestring' (query_of [] []) ''items'' False = Inr None"
  using find_entity_basestring_first_entity[of "query_of [0, 2] []" "''items''" True]
        find_entity_basestring_first_entity[of "query_of [] []" "''items''" True]
        find_entity_basestring_first_entity[of "query_of [] []" "''items''" False]
  by (simp add: query_of_def)

lemma EagerLazyOption_init_raises:
  "\<exists>e. EagerLazyOption_init E key lazy chained propagate = Inl e"
  by (cases key) (simp_all add: EagerLazyOption_init_def properties_def)

text \<open>
  Claim C4 on the code. The key \<^verbatim>\<open>("*",)\<close> passes the guard, and the constructor then
  raises \<^verbatim>\<open>NameError\<close> at its last statement, which reads the unbound name
  \<^verbatim>\<open>properties\<close>: no wildcard option is built, and none with \<^verbatim>\<open>propagate_to_loaders\<close>
  forced to \<open>False\<close>. The key \<^verbatim>\<open>("orders", "*")\<close>, whose wildcard is not the first
  token, passes the guard too and fails the same way, not with the wildcard argument
  error. Only a key that starts with \<^verbatim>\<open>"*"\<close> and has other tokens raises that error.
\<close>

theorem wildcard_alone_raises_name_error:
  "EagerLazyOption_init E [TStr ''*''] lazy chained propagate = Inl NameError
 \<and> EagerLazyOption_init E [TStr ''orders'', TStr ''*''] lazy chained propagate = Inl NameError
 \<and> EagerLazyOption_init E [TStr ''*'', TStr ''orders''] lazy chained propagate
       = Inl (ArgumentError Wildcard_must_be_specified_alone)"
  by (simp add: EagerLazyOption_init_def properties_def)


lemma parent_nonempty: "p \<noteq> [] \<Longrightarrow> parent p = Inr (butlast p)"
  by (cases p) (simp_all add: parent_def)






lemma polymorphic_entry_raises:
  assumes "lefa_alias self = None"
    and "\<not> lefa_chained self"
    and "length (last paths) \<ge> 2"
    and "paths \<noteq> []"
    and "attributes' q (''path_with_polymorphic'', last paths) = Some v"
  shows "LoadEagerFromAliasOption_process_query_property E self q paths
           = ((self, q), Some NameError)"
  using assms
  by (simp add: LoadEagerFromAliasOption_process_query_property_def last_two_def
        path_contains_def path_get_def orm_util_def)

text \<open>
  Claim C7 on the code. An option without alias, processed for the path (User, orders)
  on a query whose attributes hold a \<^verbatim>\<open>"path_with_polymorphic"\<close> entry for that path:
  the method raises \<^verbatim>\<open>NameError\<close> at \<^verbatim>\<open>orm_util.ORMAdapter\<close> and leaves the query's
  attributes as they were, with no \<^verbatim>\<open>"user_defined_eager_row_processor"\<close> entry. Without
  the entry the same option records the adapter of the query's polymorphic-adapter
  table; with an alias the method raises \<^verbatim>\<open>NameError\<close> at \<^verbatim>\<open>sql_util.ColumnAdapter\<close>.
\<close>

theorem polymorphic_path_adapter_raises_name_error:
  "LoadEagerFromAliasOption_process_query_property E0
      \<lparr>lefa_key = [attr_of User_orders], lefa_alias = None, lefa_chained = True\<rparr>
      poly_query [[PEnt (Mapper 0), PProp User_orders]]
     = ((\<lparr>lefa_key = [attr_of User_orders], lefa_alias = None, lefa_chained = True\<rparr>,
         poly_query), Some NameError)
 \<and> LoadEagerFromAliasOption_process_query_property E0
      \<lparr>lefa_key = [attr_of User_orders], lefa_alias = None, lefa_chained = True\<rparr>
      (poly_query\<lparr>attributes' := Map.empty\<rparr>) [[PEnt (Mapper 0), PProp User_orders]]
     = ((\<lparr>lefa_key = [attr_of User_orders], lefa_alias = None, lefa_chained = True\<rparr>,
         poly_query\<lparr>attributes' :=
           [(''user_defined_eager_row_processor'', [PEnt (Mapper 0), PProp User_orders])
              \<mapsto> V_adapter (Some (Polymorphic_adapter 7))]\<rparr>), None)
 \<and> LoadEagerFromAliasOption_process_query_property E0
      \<lparr>lefa_key = [attr_of User_orders], lefa_alias = Some (Alias_selectable (Selectable 5)),
        lefa_chained = True\<rparr>
      (poly_query\<lparr>attributes' := Map.empty\<rparr>) [[PEnt (Mapper 0), PProp User_orders]]
     = ((\<lparr>lefa_key = [attr_of User_orders], lefa_alias = Some (Alias_selectable (Selectable 5)),
          lefa_chained = True\<rparr>,
         poly_query\<lparr>attributes' := Map.empty\<rparr>), Some NameError)"
  by (simp add: LoadEagerFromAliasOption_process_query_property_def poly_query_def last_two_def
        path_contains_def path_get_def path_set_def orm_util_def sql_util_def
        elem_mapper_def table_adapter_def User_orders_def)

lemma find_entity_prop_comparator_flag_inverted:
  "UnboundLoad_find_entity_prop_comparator' E q token m flag
     = PropertyOption_find_entity_prop_comparator' E q token m (\<not> flag)"
  by (simp add: UnboundLoad_find_entity_prop_comparator'_def
        PropertyOption_find_entity_prop_comparator'_def)

lemma PropertyOption_find_entity_prop_comparator_modes:
  assumes "find (\<lambda>ent. corresponds_to E ent (searchfor_of m)) (mapper_entities' q) = None"
  shows "(\<exists>msg. PropertyOption_find_entity_prop_comparator' E q token m True = Inl (ArgumentError msg))
       \<and> PropertyOption_find_entity_prop_comparator' E q token m False = Inr None"
  using assms by (simp add: PropertyOption_find_entity_prop_comparator'_def)

lemma joinedload_Address_user_eq:
  "joinedload_Address_user =
     (\<lparr>objs = [\<lparr>ub_path = [], ub_strategy = None, to_bind' = 0, local_opts = []\<rparr>,
               \<lparr>ub_path = [attr_of Address_user], ub_strategy = Some joined_strategy,
                 to_bind' = 0, local_opts = []\<rparr>],
        sets = [[1]], dicts = []\<rparr>, 1)"
  by (simp add: joinedload_Address_user_def UnboundLoad_init_def empty_heap_def
        UnboundLoad_joined_def UnboundLoad_set_strategy'_def UnboundLoad_generate'_def
        UnboundLoad_generate_path'_def set_add_def Let_def joined_strategy_def)

text \<open>
  Claim C3 on the code: the unbound option \<^verbatim>\<open>joinedload(Address.user)\<close> against a query
  on User alone, whose entities do not correspond to Address. \<^verbatim>\<open>process_query\<close> passes
  \<^verbatim>\<open>raiseerr=True\<close> into the parameter \<^verbatim>\<open>conditional\<close>, gets \<^verbatim>\<open>None\<close> and fails on
  \<^verbatim>\<open>entity.entity_zero\<close> with an attribute error; \<^verbatim>\<open>process_query_conditionally\<close>
  raises the argument error.
\<close>

theorem unbound_attribute_miss_modes_swapped:
  "UnboundLoad_process_query E0 (fst joinedload_Address_user) [1] (query_of [0] [])
     = Inl AttributeError
   \<and> UnboundLoad_process_query_conditionally E0 (fst joinedload_Address_user) [1] (query_of [0] [])
     = Inl (ArgumentError (Cant_find_property_on_any_entity ''user''))"
  by (simp add: joinedload_Address_user_eq UnboundLoad_process_query_def
        UnboundLoad_process_query_conditionally_def UnboundLoad_process'_def
        bind_loader'_def query_of_def attr_of_def Address_user_def
        UnboundLoad_find_entity_prop_comparator'_def searchfor_of_def E0_def)

lemma chop_path_raises:
  "chop_path' (c_token # rest) (p_mapper # p_prop # p) = Inl AttributeError"
  by (simp add: chop_path'_def token_property_def pelem_property_def split: token.splits)

lemma bind_loader_current_path_raises:
  "current_path' q \<noteq> [] \<Longrightarrow> bind_loader' E h self q context raiseerr = Inl TypeError"
  by (simp add: bind_loader'_def)

text \<open>
  Claim C1 on the code. The unbound option \<^verbatim>\<open>joinedload_all("orders.items")\<close> against a
  query on Order with the current path (User, orders): \<^verbatim>\<open>_bind_loader\<close> calls
  \<^verbatim>\<open>self._chop_path(start_path, current_path)\<close>, a method declared without \<^verbatim>\<open>self\<close>, and
  the call raises \<^verbatim>\<open>TypeError\<close> in both modes; no token is chopped and resolution does
  not continue. The same happens for a current path the tokens do not match, where the
  claim expects a silent miss. Called as a plain function on the tokens (User.orders,
  Order.items) and that path, \<^verbatim>\<open>_chop_path\<close> raises \<^verbatim>\<open>AttributeError\<close> at
  \<^verbatim>\<open>p_prop.property\<close>.
\<close>

theorem secondary_load_raises_type_error:
  "UnboundLoad_process_query_conditionally E0 (fst joinedload_all_orders_items) [1, 2]
       (query_of [2] [PEnt (Mapper 0), PProp User_orders])
     = Inl TypeError
   \<and> UnboundLoad_process_query E0 (fst joinedload_all_orders_items) [1, 2]
       (query_of [2] [PEnt (Mapper 0), PProp User_orders])
     = Inl TypeError
   \<and> UnboundLoad_process_query_conditionally E0 (fst joinedload_all_orders_items) [1, 2]
       (query_of [2] [PEnt (Mapper 0), PProp User_addresses])
     = Inl TypeError
   \<and> chop_path' [attr_of User_orders, attr_of Order_items] [PEnt (Mapper 0), PProp User_orders]
     = Inl AttributeError"
  by (simp add: chop_path'_def token_property_def pelem_property_def attr_of_def
        UnboundLoad_process_query_def UnboundLoad_process_query_conditionally_def
        UnboundLoad_process'_def bind_loader'_def query_of_def)

lemma chain_length: "length (chain P ts) = length ts"
  by (induction ts arbitrary: P) simp_all

lemma chain_nth: "k < length ts \<Longrightarrow> chain P ts ! k = P @ map TStr (take (Suc k) ts)"
proof (induction ts arbitrary: P k)
  case Nil
  then show ?case by simp
next
  case (Cons t ts)
  show ?case
  proof (cases k)
    case 0
    then show ?thesis by simp
  next
    case (Suc j)
    with Cons.prems have "j < length ts" by simp
    from Cons.IH[OF this, of "P @ [TStr t]"] show ?thesis by (simp add: Suc)
  qed
qed

lemma set_strategy_Some:
  assumes "self < length (objs H)" and "to_bind' (objs H ! self) = s"
    and "s < length (sets H)" and "\<forall>x\<in>set (sets H ! s). x < length (objs H)"
  shows "UnboundLoad_set_strategy' H self attr (Some st) =
           (H\<lparr>objs := objs H @ [\<lparr>ub_path = ub_path (objs H ! self) @ [attr],
                                   ub_strategy = Some st, to_bind' = s, local_opts = []\<rparr>],
              sets := (sets H)[s := sets H ! s @ [length (objs H)]]\<rparr>,
            length (objs H))"
proof -
  have "length (objs H) \<notin> set (sets H ! s)" using assms(4) by auto
  then show ?thesis
    using assms(1,2)
    by (cases "objs H ! self")
       (simp add: UnboundLoad_set_strategy'_def UnboundLoad_generate'_def
          UnboundLoad_generate_path'_def set_add_def Let_def nth_append)
qed

lemma set_strategy_None:
  assumes "self < length (objs H)" and "to_bind' (objs H ! self) = s"
  shows "UnboundLoad_set_strategy' H self attr None =
           (H\<lparr>objs := objs H @ [\<lparr>ub_path = ub_path (objs H ! self) @ [attr],
                                   ub_strategy = None, to_bind' = s, local_opts = []\<rparr>]\<rparr>,
            length (objs H))"
  using assms
  by (cases "objs H ! self")
     (simp add: UnboundLoad_set_strategy'_def UnboundLoad_generate'_def
        UnboundLoad_generate_path'_def Let_def nth_append)

lemma joined_step:
  assumes "self < length (objs H)" and "to_bind' (objs H ! self) = s"
    and "s < length (sets H)" and "\<forall>x\<in>set (sets H ! s). x < length (objs H)"
  shows "UnboundLoad_joined H self attr innerjoin =
           (H\<lparr>objs := objs H @ [\<lparr>ub_path = ub_path (objs H ! self) @ [attr],
                                   ub_strategy = Some joined_strategy, to_bind' = s,
                                   local_opts = joined_opts innerjoin\<rparr>],
              sets := (sets H)[s := sets H ! s @ [length (objs H)]]\<rparr>,
            length (objs H))"
  by (cases innerjoin)
     (simp_all add: UnboundLoad_joined_def set_strategy_Some[OF assms]
        UnboundLoad_set_options'_def joined_opts_def dict_update_def)

lemma loop_chained:
  assumes "self < length (objs H)" and "to_bind' (objs H ! self) = s"
    and "ub_path (objs H ! self) = P"
    and "s < length (sets H)" and "\<forall>x\<in>set (sets H ! s). x < length (objs H)"
  shows "from_keys_loop (\<lambda>h opt token. UnboundLoad_joined h opt token innerjoin) True ts (H, self)
         = (H\<lparr>objs := objs H @ map (\<lambda>P'. \<lparr>ub_path = P', ub_strategy = Some joined_strategy,
                                          to_bind' = s, local_opts = joined_opts innerjoin\<rparr>)
                                     (chain P ts),
              sets := (sets H)[s := sets H ! s @ [length (objs H)..<length (objs H) + length ts]]\<rparr>,
            if ts = [] then self else length (objs H) + length ts - 1)"
  using assms
proof (induction ts arbitrary: H self P)
  case Nil
  then show ?case by simp
next
  case (Cons t ts)
  let ?n = "length (objs H)"
  let ?o = "\<lparr>ub_path = P @ [TStr t], ub_strategy = Some joined_strategy, to_bind' = s,
              local_opts = joined_opts innerjoin\<rparr>"
  let ?H1 = "H\<lparr>objs := objs H @ [?o], sets := (sets H)[s := sets H ! s @ [?n]]\<rparr>"
  have step: "UnboundLoad_joined H self (TStr t) innerjoin = (?H1, ?n)"
    using joined_step[OF Cons.prems(1,2,4,5), of "TStr t" innerjoin] Cons.prems(3) by simp
  have pre: "?n < length (objs ?H1)" "to_bind' (objs ?H1 ! ?n) = s"
    "ub_path (objs ?H1 ! ?n) = P @ [TStr t]" "s < length (sets ?H1)"
    "\<forall>x\<in>set (sets ?H1 ! s). x < length (objs ?H1)"
    using Cons.prems(4,5) by (auto simp: nth_append less_Suc_eq)
  have upt: "[?n..<Suc (?n + length ts)] = ?n # [Suc ?n..<Suc (?n + length ts)]"
    by (subst upt_rec) simp
  show ?case
    using Cons.IH[OF pre] Cons.prems(4)
    by (simp add: step upt del: upt_Suc)
qed


lemma loop_default:
  assumes "self < length (objs H)" and "to_bind' (objs H ! self) = s"
    and "ub_path (objs H ! self) = P"
  shows "from_keys_loop meth False ts (H, self)
         = (H\<lparr>objs := objs H @ map (\<lambda>P'. \<lparr>ub_path = P', ub_strategy = None,
                                          to_bind' = s, local_opts = []\<rparr>)
                                     (chain P ts)\<rparr>,
            if ts = [] then self else length (objs H) + length ts - 1)"
  using assms
proof (induction ts arbitrary: H self P)
  case Nil
  then show ?case by simp
next
  case (Cons t ts)
  let ?n = "length (objs H)"
  let ?o = "\<lparr>ub_path = P @ [TStr t], ub_strategy = None, to_bind' = s, local_opts = []\<rparr>"
  let ?H1 = "H\<lparr>objs := objs H @ [?o]\<rparr>"
  have step: "UnboundLoad_default H self (TStr t) = (?H1, ?n)"
    using set_strategy_None[OF Cons.prems(1,2), of "TStr t"] Cons.prems(3)
    by (simp add: UnboundLoad_default_def)
  have pre: "?n < length (objs ?H1)" "to_bind' (objs ?H1 ! ?n) = s"
    "ub_path (objs ?H1 ! ?n) = P @ [TStr t]"
    by (simp_all add: nth_append)
  show ?case
    using Cons.IH[OF pre, of ] by (simp add: step)
qed

lemma chain_snoc: "chain P (ts @ [t]) = chain P ts @ [P @ map TStr (ts @ [t])]"
  by (induction ts arbitrary: P) simp_all

lemma from_keys_chained_heap:
  assumes "concat (map (split_on CHR ''.'') keys) = ts" and "ts \<noteq> []"
  shows "\<exists>h1. joinedload_all' keys innerjoin h = Inr (h1, length (objs h) + length ts)
            \<and> dicts h1 = dicts h
            \<and> to_bind' (objs h1 ! (length (objs h) + length ts)) = length (sets h)
            \<and> sets h1 ! length (sets h)
                = [Suc (length (objs h))..<Suc (length (objs h)) + length ts]
            \<and> (\<forall>k<length ts. objs h1 ! (Suc (length (objs h)) + k)
                  = chain_obj (length (sets h)) innerjoin (map TStr (take (Suc k) ts)))"
proof -
  obtain bl l where ts: "ts = bl @ [l]" using assms(2) by (cases ts rule: rev_cases) auto
  let ?n = "length (objs h)" and ?s = "length (sets h)"
  let ?init = "\<lparr>ub_path = [], ub_strategy = None, to_bind' = ?s, local_opts = []\<rparr>"
  let ?H0 = "h\<lparr>objs := objs h @ [?init], sets := sets h @ [[]]\<rparr>"
  let ?mk = "chain_obj ?s innerjoin"
  let ?H1 = "?H0\<lparr>objs := objs ?H0 @ map ?mk (chain [] bl),
                  sets := (sets ?H0)[?s := sets ?H0 ! ?s @ [length (objs ?H0)..<length (objs ?H0) + length bl]]\<rparr>"
  let ?opt1 = "if bl = [] then ?n else length (objs ?H0) + length bl - 1"
  have pre0: "?n < length (objs ?H0)" "to_bind' (objs ?H0 ! ?n) = ?s"
    "ub_path (objs ?H0 ! ?n) = []" "?s < length (sets ?H0)"
    "\<forall>x\<in>set (sets ?H0 ! ?s). x < length (objs ?H0)"
    by (simp_all add: nth_append)
  have loop: "from_keys_loop (\<lambda>h opt token. UnboundLoad_joined h opt token innerjoin) True bl (?H0, ?n)
                = (?H1, ?opt1)"
    using loop_chained[OF pre0, of innerjoin bl] by (simp add: chain_obj_def)
  have objs1: "objs ?H1 = objs h @ ?init # map ?mk (chain [] bl)" by simp
  have sets1: "sets ?H1 ! ?s = [Suc ?n..<Suc ?n + length bl]" by (simp add: nth_append)
  have o1: "objs ?H1 ! ?opt1 = (if bl = [] then ?init else ?mk (map TStr bl))"
  proof (cases "bl = []")
    case True
    then show ?thesis by (simp add: nth_append)
  next
    case False
    then have k: "length bl - 1 < length bl" by (cases bl) simp_all
    have "objs ?H1 ! ?opt1 = map ?mk (chain [] bl) ! (length bl - 1)"
      using False k by (simp add: nth_append chain_length nth_Cons')
    also have "\<dots> = ?mk (chain [] bl ! (length bl - 1))"
      using k by (simp add: chain_length)
    also have "chain [] bl ! (length bl - 1) = map TStr bl"
      using chain_nth[OF k, of "[]"] False by (cases bl) simp_all
    finally show ?thesis using False by simp
  qed
  have pre1: "?opt1 < length (objs ?H1)" "to_bind' (objs ?H1 ! ?opt1) = ?s"
    "?s < length (sets ?H1)" "\<forall>x\<in>set (sets ?H1 ! ?s). x < length (objs ?H1)"
    unfolding o1 sets1 by (auto simp: chain_length chain_obj_def)
  let ?H2 = "?H1\<lparr>objs := objs ?H1 @ [?mk (map TStr ts)],
                  sets := (sets ?H1)[?s := sets ?H1 ! ?s @ [length (objs ?H1)]]\<rparr>"
  have path1: "ub_path (objs ?H1 ! ?opt1) @ [TStr l] = map TStr ts"
    unfolding o1 by (simp add: ts chain_obj_def)
  have final: "UnboundLoad_joined ?H1 ?opt1 (TStr l) innerjoin = (?H2, length (objs ?H1))"
    using joined_step[OF pre1, of "TStr l" innerjoin] path1 by (simp add: chain_obj_def)
  have len1: "length (objs ?H1) = ?n + length ts" by (simp add: ts chain_length)
  have res: "joinedload_all' keys innerjoin h = Inr (?H2, ?n + length ts)"
    using loop final len1 assms(1)
    by (simp add: joinedload_all'_def from_keys'_def UnboundLoad_init_def Let_def ts)
  define H2 where "H2 = ?H2"
  have objs2: "objs H2 = objs h @ ?init # map ?mk (chain [] ts)"
    by (simp add: H2_def ts chain_snoc)
  have sets2: "sets H2 ! ?s = [Suc ?n..<Suc ?n + length ts]"
    unfolding H2_def using len1 by (simp add: nth_append ts del: upt_Suc) (simp add: nth_append)
  have dicts2: "dicts H2 = dicts h" by (simp add: H2_def)
  have nth2: "objs H2 ! (Suc ?n + k) = ?mk (map TStr (take (Suc k) ts))" if k: "k < length ts" for k
  proof -
    have "objs H2 ! (Suc ?n + k) = map ?mk (chain [] ts) ! k"
      unfolding objs2 by (simp add: nth_append)
    also have "\<dots> = ?mk (chain [] ts ! k)" using k by (simp add: chain_length)
    finally show ?thesis
      using chain_nth[OF k, of "[]"] by simp
  qed
  have tb: "to_bind' (objs H2 ! (?n + length ts)) = ?s"
  proof -
    have lt: "length ts - 1 < length ts" using assms(2) by (cases ts) simp_all
    have e: "?n + length ts = Suc ?n + (length ts - 1)" using assms(2) by (cases ts) simp_all
    show ?thesis unfolding e nth2[OF lt] by (simp add: chain_obj_def)
  qed
  show ?thesis
    using res sets2 nth2 tb dicts2 unfolding H2_def[symmetric] by (intro exI[of _ H2]) simp
qed


lemma from_keys_unchained_heap:
  assumes "concat (map (split_on CHR ''.'') keys) = ts" and "ts \<noteq> []"
  shows "\<exists>h1. joinedload' keys innerjoin h = Inr (h1, length (objs h) + length ts)
            \<and> dicts h1 = dicts h
            \<and> to_bind' (objs h1 ! (length (objs h) + length ts)) = length (sets h)
            \<and> sets h1 ! length (sets h) = [length (objs h) + length ts]
            \<and> objs h1 ! (length (objs h) + length ts)
                = chain_obj (length (sets h)) innerjoin (map TStr ts)"
proof -
  obtain bl l where ts: "ts = bl @ [l]" using assms(2) by (cases ts rule: rev_cases) auto
  let ?n = "length (objs h)" and ?s = "length (sets h)"
  let ?init = "\<lparr>ub_path = [], ub_strategy = None, to_bind' = ?s, local_opts = []\<rparr>"
  let ?H0 = "h\<lparr>objs := objs h @ [?init], sets := sets h @ [[]]\<rparr>"
  let ?mk = "\<lambda>P'. \<lparr>ub_path = P', ub_strategy = None, to_bind' = ?s, local_opts = []\<rparr>"
  let ?H1 = "?H0\<lparr>objs := objs ?H0 @ map ?mk (chain [] bl)\<rparr>"
  let ?opt1 = "if bl = [] then ?n else length (objs ?H0) + length bl - 1"
  have pre0: "?n < length (objs ?H0)" "to_bind' (objs ?H0 ! ?n) = ?s"
    "ub_path (objs ?H0 ! ?n) = []"
    by (simp_all add: nth_append)
  have loop: "from_keys_loop (\<lambda>h opt token. UnboundLoad_joined h opt token innerjoin) False bl (?H0, ?n)
                = (?H1, ?opt1)"
    using loop_default[OF pre0, of _ bl] by simp
  have sets1: "sets ?H1 ! ?s = []" by (simp add: nth_append)
  have o1: "objs ?H1 ! ?opt1 = (if bl = [] then ?init else ?mk (map TStr bl))"
  proof (cases "bl = []")
    case True
    then show ?thesis by (simp add: nth_append)
  next
    case False
    then have k: "length bl - 1 < length bl" by (cases bl) simp_all
    have "objs ?H1 ! ?opt1 = map ?mk (chain [] bl) ! (length bl - 1)"
      using False k by (simp add: nth_append chain_length nth_Cons')
    also have "\<dots> = ?mk (chain [] bl ! (length bl - 1))"
      using k by (simp add: chain_length)
    also have "chain [] bl ! (length bl - 1) = map TStr bl"
      using chain_nth[OF k, of "[]"] False by (cases bl) simp_all
    finally show ?thesis using False by simp
  qed
  have pre1: "?opt1 < length (objs ?H1)" "to_bind' (objs ?H1 ! ?opt1) = ?s"
    "?s < length (sets ?H1)" "\<forall>x\<in>set (sets ?H1 ! ?s). x < length (objs ?H1)"
    unfolding o1 sets1 by (auto simp: chain_length)
  let ?H2 = "?H1\<lparr>objs := objs ?H1 @ [chain_obj ?s innerjoin (map TStr ts)],
                  sets := (sets ?H1)[?s := sets ?H1 ! ?s @ [length (objs ?H1)]]\<rparr>"
  have path1: "ub_path (objs ?H1 ! ?opt1) @ [TStr l] = map TStr ts"
    unfolding o1 by (simp add: ts)
  have final: "UnboundLoad_joined ?H1 ?opt1 (TStr l) innerjoin = (?H2, length (objs ?H1))"
    using joined_step[OF pre1, of "TStr l" innerjoin] path1 by (simp add: chain_obj_def)
  have len1: "length (objs ?H1) = ?n + length ts" by (simp add: ts chain_length)
  have res: "joinedload' keys innerjoin h = Inr (?H2, ?n + length ts)"
    using loop final len1 assms(1)
    by (simp add: joinedload'_def from_keys'_def UnboundLoad_init_def Let_def ts)
  define H2 where "H2 = ?H2"
  have objs2: "objs H2 ! (?n + length ts) = chain_obj ?s innerjoin (map TStr ts)"
    unfolding H2_def using len1 by (simp add: nth_append chain_length ts)
  have sets2: "sets H2 ! ?s = [?n + length ts]"
    unfolding H2_def using len1 by (simp add: nth_append)
  have dicts2: "dicts H2 = dicts h" by (simp add: H2_def)
  show ?thesis
    using res sets2 objs2 dicts2 unfolding H2_def[symmetric]
    by (intro exI[of _ H2]) (simp add: chain_obj_def)
qed

lemma resolve_length: "resolve E ent ts = Some props \<Longrightarrow> length props = length ts"
proof (induction ts arbitrary: ent props)
  case Nil
  then show ?case by simp
next
  case (Cons t ts)
  then show ?case
    by (auto split: option.splits if_splits)
qed

lemma resolve_take:
  "resolve E ent ts = Some props \<Longrightarrow> 0 < k \<Longrightarrow> k \<le> length ts
     \<Longrightarrow> resolve E ent (take k ts) = Some (take k props)"
proof (induction ts arbitrary: ent props k)
  case Nil
  then show ?case by simp
next
  case (Cons t ts)
  from Cons.prems(2) obtain k' where k: "k = Suc k'" by (cases k) auto
  from Cons.prems(1) obtain pr where pr: "attrs E ent t = Some pr"
    by (auto split: option.splits)
  show ?case
  proof (cases "ts = []")
    case True
    with Cons.prems pr k show ?thesis by auto
  next
    case False
    with Cons.prems(1) pr obtain m props' where m: "prop_mapper pr = Some m"
      and r: "resolve E (Mapper m) ts = Some props'" and props: "props = pr # props'"
      by (auto split: option.splits)
    show ?thesis
    proof (cases k')
      case 0
      with pr k props show ?thesis by simp
    next
      case (Suc k'')
      then have "0 < k'" "k' \<le> length ts" using Cons.prems(3) k by simp_all
      from Cons.IH[OF r this] have "resolve E (Mapper m) (take k' ts) = Some (take k' props')" .
      moreover have "take k' ts \<noteq> []" using False Suc by (cases ts) simp_all
      ultimately show ?thesis using pr m k props by simp
    qed
  qed
qed

lemma rel_path_resolved:
  "resolve E ent ts = Some props \<Longrightarrow> ts \<noteq> []
     \<Longrightarrow> length (rel_path ent props) = 2 * length props
       \<and> last (rel_path ent props) = PProp (last props)"
proof (induction ts arbitrary: ent props)
  case Nil
  then show ?case by simp
next
  case (Cons t ts)
  from Cons.prems(1) obtain pr where pr: "attrs E ent t = Some pr"
    by (auto split: option.splits)
  show ?case
  proof (cases "ts = []")
    case True
    with Cons.prems pr show ?thesis by (auto split: option.splits)
  next
    case False
    with Cons.prems(1) pr obtain m props' where m: "prop_mapper pr = Some m"
      and r: "resolve E (Mapper m) ts = Some props'" and props: "props = pr # props'"
      by (auto split: option.splits)
    from resolve_length[OF r] False have ne: "props' \<noteq> []" by auto
    from Cons.IH[OF r False] ne show ?thesis
      by (auto simp: props m)
  qed
qed

lemma has_entity_snoc:
  "has_entity (q @ [x]) =
     (case x of PEnt e \<Rightarrow> True | PProp pr \<Rightarrow> prop_mapper pr \<noteq> None | PToken s \<Rightarrow> False)"
proof -
  have "has_entity p = (case last p of PEnt e \<Rightarrow> True | PProp pr \<Rightarrow> prop_mapper pr \<noteq> None
                        | PToken s \<Rightarrow> False)" if "p \<noteq> []" for p
    using that by (cases p) (simp_all add: has_entity_def)
  from this[of "q @ [x]"] show ?thesis by simp
qed

lemma path_entity_snoc:
  "path_entity (q @ [x]) =
     (case x of
        PEnt e \<Rightarrow> Inr e
      | PProp pr \<Rightarrow> (case prop_mapper pr of None \<Rightarrow> Inl AttributeError | Some m \<Rightarrow> Inr (Mapper m))
      | PToken s \<Rightarrow> Inl AttributeError)"
proof -
  have "path_entity p =
          (case last p of
             PEnt e \<Rightarrow> Inr e
           | PProp pr \<Rightarrow> (case prop_mapper pr of None \<Rightarrow> Inl AttributeError
                           | Some m \<Rightarrow> Inr (Mapper m))
           | PToken s \<Rightarrow> Inl AttributeError)" if "p \<noteq> []" for p
    using that by (cases p) (simp_all add: path_entity_def)
  from this[of "q @ [x]"] show ?thesis by simp
qed

lemma entity_path_snoc:
  "entity_path (q @ [x]) =
     (case x of
        PEnt e \<Rightarrow> Inr (q @ [x])
      | PProp pr \<Rightarrow> (case prop_mapper pr of
                       None \<Rightarrow> Inl AttributeError
                     | Some m \<Rightarrow> Inr (q @ [x] @ [PEnt (Mapper m)]))
      | PToken s \<Rightarrow> Inl AttributeError)"
proof -
  have "entity_path p =
          (case last p of
             PEnt e \<Rightarrow> Inr p
           | PProp pr \<Rightarrow> (case prop_mapper pr of
                            None \<Rightarrow> Inl AttributeError
                          | Some m \<Rightarrow> Inr (p @ [PEnt (Mapper m)]))
           | PToken s \<Rightarrow> Inl AttributeError)" if "p \<noteq> []" for p
    using that by (cases p) (auto simp: entity_path_def split: pelem.splits option.splits)
  from this[of "q @ [x]"] show ?thesis by (cases x) (simp_all split: option.splits)
qed

lemma bind_tokens_resolve:
  "resolve E ent ts = Some props \<Longrightarrow> ts \<noteq> []
     \<Longrightarrow> bind_tokens E c (q @ [PEnt ent]) (map TStr ts) = Inr (c, q @ full_path ent props)"
proof (induction ts arbitrary: ent props q)
  case Nil
  then show ?case by simp
next
  case (Cons t ts)
  from Cons.prems(1) obtain pr where pr: "attrs E ent t = Some pr"
    by (auto split: option.splits)
  show ?case
  proof (cases "ts = []")
    case True
    with Cons.prems pr have props: "props = [pr]" by simp
    show ?thesis
      using pr True
      using has_entity_snoc[of "q @ [PEnt ent]" "PProp pr"]
            entity_path_snoc[of "q @ [PEnt ent]" "PProp pr"]
      by (cases "prop_mapper pr")
         (simp_all add: props Load_generate_path'_def path_entity_snoc full_path_def)
  next
    case False
    with Cons.prems(1) pr obtain m props' where m: "prop_mapper pr = Some m"
      and r: "resolve E (Mapper m) ts = Some props'" and props: "props = pr # props'"
      by (auto split: option.splits)
    from resolve_length[OF r] False have ne: "props' \<noteq> []" by auto
    have step: "Load_generate_path' E c (q @ [PEnt ent]) (TStr t)
                  = Inr (c, (q @ [PEnt ent, PProp pr]) @ [PEnt (Mapper m)])"
      using pr m has_entity_snoc[of "q @ [PEnt ent]" "PProp pr"]
            entity_path_snoc[of "q @ [PEnt ent]" "PProp pr"]
      by (simp add: Load_generate_path'_def path_entity_snoc)
    have "bind_tokens E c ((q @ [PEnt ent, PProp pr]) @ [PEnt (Mapper m)]) (map TStr ts)
            = Inr (c, (q @ [PEnt ent, PProp pr]) @ full_path (Mapper m) props')"
      by (rule Cons.IH[OF r False])
    then show ?thesis
      using step ne by (simp add: props full_path_def m split: option.splits)
  qed
qed

lemma full_path_target:
  assumes "resolve E ent ts = Some props" and "ts \<noteq> []"
  shows "(if has_entity (full_path ent props) then parent (full_path ent props)
          else Inr (full_path ent props)) = Inr (rel_path ent props)"
proof -
  from rel_path_resolved[OF assms]
  have len: "length (rel_path ent props) = 2 * length props"
    and lst: "last (rel_path ent props) = PProp (last props)" by simp_all
  from resolve_length[OF assms(1)] assms(2) have "props \<noteq> []" by auto
  with len have ne: "rel_path ent props \<noteq> []" by auto
  then have split: "rel_path ent props = butlast (rel_path ent props) @ [PProp (last props)]"
    using lst by (metis append_butlast_last_id)
  show ?thesis
  proof (cases "prop_mapper (last props)")
    case None
    have "has_entity (rel_path ent props) = False"
      by (subst split) (simp add: has_entity_snoc None)
    then show ?thesis by (simp add: full_path_def None)
  next
    case (Some m)
    then show ?thesis
      by (simp add: full_path_def has_entity_snoc parent_nonempty)
  qed
qed

lemma bind_loader_chain:
  assumes "objs H ! val = chain_obj s innerjoin (map TStr (take j ts))"
    and "0 < j" and "j \<le> length ts"
    and "mapper_entities' q = ent # ents" and "current_path' q = []"
    and "resolve E (entity_zero ent) ts = Some props" and "ca < length (dicts H)"
  shows "bind_loader' E H val q ca raiseerr =
           Inr (H\<lparr>dicts := (dicts H)[ca :=
                  chain_writes (entity_zero ent) props ca innerjoin j (dicts H ! ca)]\<rparr>)"
proof -
  let ?tk = "take j ts" and ?e = "entity_zero ent"
  have tk: "?tk \<noteq> []" using assms(2,3) by (cases ts) auto
  then obtain t tk' where tk_eq: "?tk = t # tk'" by (cases ?tk) auto
  have r: "resolve E ?e ?tk = Some (take j props)"
    by (rule resolve_take[OF assms(6,2,3)])
  have bt: "bind_tokens E (dicts H ! ca) [PEnt ?e] (map TStr ?tk)
              = Inr (dicts H ! ca, full_path ?e (take j props))"
    using bind_tokens_resolve[OF r tk, of "dicts H ! ca" "[]"] by simp
  have tgt: "(if has_entity (full_path ?e (take j props)) then parent (full_path ?e (take j props))
              else Inr (full_path ?e (take j props))) = Inr (rel_path ?e (take j props))"
    by (rule full_path_target[OF r tk])
  have fe: "UnboundLoad_find_entity_basestring' q t raiseerr = Inr (Some ent)"
    by (simp add: UnboundLoad_find_entity_basestring'_def assms(4))
  let ?F = "full_path ?e (take j props)"
  have tgt1: "parent ?F = Inr (rel_path ?e (take j props))" if "has_entity ?F"
    using tgt that by simp
  have tgt2: "?F = rel_path ?e (take j props)" if "\<not> has_entity ?F"
    using tgt that by simp
  have path: "ub_path (objs H ! val) = TStr t # map TStr tk'"
    using assms(1) tk_eq by (simp add: chain_obj_def)
  have opts: "local_opts (objs H ! val) = joined_opts innerjoin"
    "ub_strategy (objs H ! val) = Some joined_strategy"
    using assms(1) by (simp_all add: chain_obj_def)
  have bt': "bind_tokens E (dicts H ! ca) [PEnt ?e] (TStr t # map TStr tk') = Inr (dicts H ! ca, ?F)"
    using bt unfolding tk_eq by (simp del: bind_tokens.simps)
  show ?thesis
  proof (cases "has_entity ?F")
    case True
    show ?thesis
      using bt' tgt1[OF True] True fe assms(5,7) path opts
      by (cases innerjoin)
         (simp_all add: bind_loader'_def joined_opts_def chain_writes_def
            chain_loader_def path_set_def Let_def Load_set_options'_def
            del: bind_tokens.simps)
  next
    case False
    show ?thesis
      using bt' tgt2[OF False] False fe assms(5,7) path opts
      by (cases innerjoin)
         (simp_all add: bind_loader'_def joined_opts_def chain_writes_def
            chain_loader_def path_set_def Let_def Load_set_options'_def
            del: bind_tokens.simps)
  qed
qed

lemma bind_all_chain:
  assumes "\<forall>v\<in>set order. n < v \<and> v - n \<le> length ts
             \<and> objs H ! v = chain_obj s innerjoin (map TStr (take (v - n) ts))"
    and "mapper_entities' q = ent # ents" and "current_path' q = []"
    and "resolve E (entity_zero ent) ts = Some props" and "ca < length (dicts H)"
  shows "bind_all E H order q ca raiseerr =
           Inr (H\<lparr>dicts := (dicts H)[ca :=
                  fold (\<lambda>v. chain_writes (entity_zero ent) props ca innerjoin (v - n)) order
                    (dicts H ! ca)]\<rparr>)"
  using assms(1,5)
proof (induction order arbitrary: H)
  case Nil
  then show ?case by simp
next
  case (Cons v order)
  let ?W = "\<lambda>v. chain_writes (entity_zero ent) props ca innerjoin (v - n)"
  let ?H1 = "H\<lparr>dicts := (dicts H)[ca := ?W v (dicts H ! ca)]\<rparr>"
  from Cons.prems(1) have v: "0 < v - n" "v - n \<le> length ts"
    "objs H ! v = chain_obj s innerjoin (map TStr (take (v - n) ts))" by auto
  have step: "bind_loader' E H v q ca raiseerr = Inr ?H1"
    by (rule bind_loader_chain[OF v(3) v(1) v(2) assms(2,3,4) Cons.prems(2)])
  have pre: "\<forall>v\<in>set order. n < v \<and> v - n \<le> length ts
               \<and> objs ?H1 ! v = chain_obj s innerjoin (map TStr (take (v - n) ts))"
    "ca < length (dicts ?H1)"
    using Cons.prems by simp_all
  show ?case
    using Cons.IH[OF pre] Cons.prems(2) by (simp add: step)
qed

lemma chain_writes_loader:
  "chain_writes e props ca innerjoin j c (''loader'', p) =
     (if p = rel_path e (take j props) then Some (V_loader (chain_loader e props ca j))
      else c (''loader'', p))"
  by (cases innerjoin) (simp_all add: chain_writes_def)

lemma chain_writes_None_other:
  "k \<noteq> ''loader'' \<Longrightarrow> chain_writes e props ca None j c (k, p) = c (k, p)"
  by (simp add: chain_writes_def)

lemma fold_writes_miss:
  "\<forall>v\<in>set order. rel_path e (take (f v) props) \<noteq> p \<Longrightarrow>
     fold (\<lambda>v. chain_writes e props ca innerjoin (f v)) order c (''loader'', p) = c (''loader'', p)"
  by (induction order arbitrary: c) (auto simp: chain_writes_loader)

lemma fold_writes_None_other:
  "k \<noteq> ''loader'' \<Longrightarrow>
     fold (\<lambda>v. chain_writes e props ca None (f v)) order c (k, p) = c (k, p)"
  by (induction order arbitrary: c) (simp_all add: chain_writes_None_other)

lemma fold_writes_hit:
  assumes "v \<in> set order"
    and "\<forall>v'\<in>set order. rel_path e (take (f v') props) = rel_path e (take (f v) props) \<longrightarrow> f v' = f v"
  shows "fold (\<lambda>v. chain_writes e props ca innerjoin (f v)) order c
           (''loader'', rel_path e (take (f v) props))
         = Some (V_loader (chain_loader e props ca (f v)))"
  using assms
proof (induction order arbitrary: c v)
  case Nil
  then show ?case by simp
next
  case (Cons x xs)
  let ?W = "\<lambda>v. chain_writes e props ca innerjoin (f v)"
  let ?k = "rel_path e (take (f v) props)"
  show ?case
  proof (cases "\<exists>v'\<in>set xs. rel_path e (take (f v') props) = ?k")
    case True
    then obtain v' where v': "v' \<in> set xs" "rel_path e (take (f v') props) = ?k" by blast
    with Cons.prems(2) have fv: "f v' = f v" by simp
    have "\<forall>v''\<in>set xs. rel_path e (take (f v'') props) = rel_path e (take (f v') props)
             \<longrightarrow> f v'' = f v'"
      using Cons.prems(2) fv by simp
    from Cons.IH[OF v'(1) this, of "?W x c"] show ?thesis by (simp add: fv)
  next
    case False
    then have miss: "\<forall>v'\<in>set xs. rel_path e (take (f v') props) \<noteq> ?k" by blast
    from False Cons.prems(1) have vx: "v = x" by auto
    show ?thesis
      using fold_writes_miss[OF miss, of ca innerjoin "?W x c"]
      by (simp add: chain_writes_loader vx)
  qed
qed

lemma rel_path_take_length:
  assumes "resolve E ent ts = Some props" and "0 < j" and "j \<le> length ts"
  shows "length (rel_path ent (take j props)) = 2 * j"
proof -
  have "take j ts \<noteq> []" using assms(2,3) by (cases ts) auto
  from rel_path_resolved[OF resolve_take[OF assms] this] resolve_length[OF assms(1)] assms(3)
  show ?thesis by simp
qed

lemma chain_context:
  assumes r: "resolve E ent ts = Some props"
    and ord: "set order = (\<lambda>j. n + j) ` {1..N}" and N: "N \<le> length ts"
    and c_def: "c = fold (\<lambda>v. chain_writes ent props ca innerjoin (v - n)) order Map.empty"
  shows "loader_keys c = (\<lambda>j. (''loader'', rel_path ent (take j props))) ` {1..N}"
    and "card (loader_keys c) = N"
    and "\<forall>j\<in>{1..N}. c (''loader'', rel_path ent (take j props))
            = Some (V_loader (chain_loader ent props ca j))"
    and "innerjoin = None \<longrightarrow> dom c = loader_keys c"
proof -
  let ?K = "\<lambda>j. rel_path ent (take j props)"
  have len: "length (?K j) = 2 * j" if "j \<in> {1..N}" for j
    using rel_path_take_length[OF r, of j] that N by simp
  have inj: "j = j'" if "j \<in> {1..N}" "j' \<in> {1..N}" and eq: "?K j = ?K j'" for j j'
  proof -
    have "length (?K j) = length (?K j')" by (simp only: eq)
    then have "2 * j = 2 * j'" by (simp only: len[OF that(1)] len[OF that(2)])
    then show ?thesis by simp
  qed
  have mem: "v - n \<in> {1..N}" if "v \<in> set order" for v
    using that ord by auto
  have hit: "c (''loader'', ?K j) = Some (V_loader (chain_loader ent props ca j))"
    if j: "j \<in> {1..N}" for j
  proof -
    have v: "n + j \<in> set order" using ord j by auto
    have "\<forall>v'\<in>set order. ?K (v' - n) = ?K (n + j - n) \<longrightarrow> v' - n = n + j - n"
    proof (intro ballI impI)
      fix v' assume v': "v' \<in> set order" and eq: "?K (v' - n) = ?K (n + j - n)"
      have "n + j - n = j" by simp
      with eq have "?K (v' - n) = ?K j" by simp
      from inj[OF mem[OF v'] j this] show "v' - n = n + j - n" by simp
    qed
    from fold_writes_hit[of "n + j" order ent "\<lambda>v. v - n" props, OF v this, of ca innerjoin Map.empty]
    show ?thesis by (simp add: c_def)
  qed
  have miss: "c (''loader'', p) = None" if "p \<notin> ?K ` {1..N}" for p
  proof -
    have "\<forall>v\<in>set order. ?K (v - n) \<noteq> p" using that mem by blast
    from fold_writes_miss[of order ent "\<lambda>v. v - n" props p, OF this, of ca innerjoin Map.empty]
    show ?thesis by (simp add: c_def)
  qed
  show keys: "loader_keys c = (\<lambda>j. (''loader'', ?K j)) ` {1..N}"
  proof (rule set_eqI)
    fix k :: "string \<times> path"
    obtain a p where k: "k = (a, p)" by (cases k)
    show "k \<in> loader_keys c \<longleftrightarrow> k \<in> (\<lambda>j. (''loader'', ?K j)) ` {1..N}"
    proof (cases "p \<in> ?K ` {1..N}")
      case True
      then obtain j where "j \<in> {1..N}" "p = ?K j" by blast
      with hit[of j] show ?thesis by (auto simp: loader_keys_def k)
    next
      case False
      with miss[OF False] show ?thesis by (auto simp: loader_keys_def k)
    qed
  qed
  have "inj_on (\<lambda>j. (''loader'', ?K j)) {1..N}"
  proof (rule inj_onI)
    fix j j' assume "j \<in> {1..N}" "j' \<in> {1..N}" "(''loader'', ?K j) = (''loader'', ?K j')"
    then show "j = j'" using inj[of j j'] by simp
  qed
  then show "card (loader_keys c) = N"
    unfolding keys by (simp add: card_image)
  show "\<forall>j\<in>{1..N}. c (''loader'', ?K j) = Some (V_loader (chain_loader ent props ca j))"
    using hit by blast
  show "innerjoin = None \<longrightarrow> dom c = loader_keys c"
  proof
    assume ij: "innerjoin = None"
    have "c (k, p) = None" if "k \<noteq> ''loader''" for k p
      using fold_writes_None_other[OF that, of ent props ca "\<lambda>v. v - n" order Map.empty p]
      by (simp add: c_def ij)
    then have "fst k = ''loader''" if "k \<in> dom c" for k
      using that by (cases k) (metis domIff fst_conv)
    then show "dom c = loader_keys c"
      by (auto simp: loader_keys_def)
  qed
qed

lemma upt_as_image: "{Suc n..<Suc n + N} = (\<lambda>j. n + j) ` {1..N}"
  by (auto simp: image_iff)

lemma process_chain:
  assumes "\<forall>v\<in>set order. n < v \<and> v - n \<le> length ts
             \<and> objs h1 ! v = chain_obj s innerjoin (map TStr (take (v - n) ts))"
    and "mapper_entities' q = ent # ents" and "current_path' q = []"
    and "resolve E (entity_zero ent) ts = Some props"
  shows "\<exists>h2. UnboundLoad_process' E h1 order q raiseerr =
           Inr (h2, q\<lparr>attributes' := attributes' q ++
                  fold (\<lambda>v. chain_writes (entity_zero ent) props (length (dicts h1)) innerjoin (v - n))
                    order Map.empty\<rparr>)"
proof -
  let ?H0 = "h1\<lparr>dicts := dicts h1 @ [Map.empty]\<rparr>"
  let ?ca = "length (dicts h1)"
  have pre: "\<forall>v\<in>set order. n < v \<and> v - n \<le> length ts
               \<and> objs ?H0 ! v = chain_obj s innerjoin (map TStr (take (v - n) ts))"
    "?ca < length (dicts ?H0)"
    using assms(1) by simp_all
  from bind_all_chain[OF pre(1) assms(2,3,4) pre(2), of raiseerr]
  show ?thesis
    by (simp add: UnboundLoad_process'_def Let_def)
qed

text \<open>
  Claim C2. Let the keys split into the tokens \<open>ts\<close>, not empty, and let the query have
  no current path and a first mapper entity from which the tokens resolve to the
  properties \<open>props\<close>. The option built by \<^verbatim>\<open>_from_keys\<close> with \<^verbatim>\<open>chained=True\<close> and
  the method \<^verbatim>\<open>joined\<close>, processed against the query in any iteration order of its
  \<^verbatim>\<open>_to_bind\<close> set, merges into the query's attributes a context whose loader entries
  are exactly one per prefix of the path (\<open>length ts\<close> of them, at the paths of
  increasing length), each a loader with the joined strategy; without \<^verbatim>\<open>innerjoin\<close>
  the context holds nothing else. With \<^verbatim>\<open>chained=False\<close> the context holds exactly one
  loader entry, at the full path.
\<close>

theorem from_keys_directives:
  assumes "concat (map (split_on CHR ''.'') keys) = ts" and "ts \<noteq> []"
    and "mapper_entities' q = ent # ents" and "current_path' q = []"
    and "resolve E (entity_zero ent) ts = Some props"
  shows "(\<exists>h1 opt. joinedload_all' keys innerjoin h = Inr (h1, opt) \<and>
            (\<forall>order. iteration_of h1 opt order \<longrightarrow>
               (\<exists>h2 c. UnboundLoad_process' E h1 order q raiseerr
                          = Inr (h2, q\<lparr>attributes' := attributes' q ++ c\<rparr>)
                  \<and> loader_keys c
                      = (\<lambda>j. (''loader'', rel_path (entity_zero ent) (take j props))) ` {1..length ts}
                  \<and> card (loader_keys c) = length ts
                  \<and> (\<forall>j\<in>{1..length ts}.
                        c (''loader'', rel_path (entity_zero ent) (take j props))
                          = Some (V_loader (chain_loader (entity_zero ent) props (length (dicts h)) j)))
                  \<and> (innerjoin = None \<longrightarrow> dom c = loader_keys c))))
       \<and> (\<exists>h1 opt. joinedload' keys innerjoin h = Inr (h1, opt) \<and>
            (\<forall>order. iteration_of h1 opt order \<longrightarrow>
               (\<exists>h2 c. UnboundLoad_process' E h1 order q raiseerr
                          = Inr (h2, q\<lparr>attributes' := attributes' q ++ c\<rparr>)
                  \<and> loader_keys c = {(''loader'', rel_path (entity_zero ent) props)}
                  \<and> c (''loader'', rel_path (entity_zero ent) props)
                      = Some (V_loader (chain_loader (entity_zero ent) props (length (dicts h))
                                          (length ts)))
                  \<and> (innerjoin = None \<longrightarrow> dom c = loader_keys c))))"
proof (intro conjI)
  let ?n = "length (objs h)" and ?s = "length (sets h)" and ?N = "length ts"
  let ?e = "entity_zero ent" and ?ca = "length (dicts h)"
  from from_keys_chained_heap[OF assms(1,2), of innerjoin h] obtain h1 where
    H: "joinedload_all' keys innerjoin h = Inr (h1, ?n + ?N)
      \<and> dicts h1 = dicts h
      \<and> to_bind' (objs h1 ! (?n + ?N)) = ?s
      \<and> sets h1 ! ?s = [Suc ?n..<Suc ?n + ?N]
      \<and> (\<forall>k<?N. objs h1 ! (Suc ?n + k) = chain_obj ?s innerjoin (map TStr (take (Suc k) ts)))"
    by (rule exE)
  note res = H[THEN conjunct1]
    and d1 = H[THEN conjunct2, THEN conjunct1]
    and tb = H[THEN conjunct2, THEN conjunct2, THEN conjunct1]
    and s1 = H[THEN conjunct2, THEN conjunct2, THEN conjunct2, THEN conjunct1]
    and nth1 = H[THEN conjunct2, THEN conjunct2, THEN conjunct2, THEN conjunct2]
  show "\<exists>h1 opt. joinedload_all' keys innerjoin h = Inr (h1, opt) \<and>
            (\<forall>order. iteration_of h1 opt order \<longrightarrow>
               (\<exists>h2 c. UnboundLoad_process' E h1 order q raiseerr
                          = Inr (h2, q\<lparr>attributes' := attributes' q ++ c\<rparr>)
                  \<and> loader_keys c = (\<lambda>j. (''loader'', rel_path ?e (take j props))) ` {1..?N}
                  \<and> card (loader_keys c) = ?N
                  \<and> (\<forall>j\<in>{1..?N}. c (''loader'', rel_path ?e (take j props))
                          = Some (V_loader (chain_loader ?e props ?ca j)))
                  \<and> (innerjoin = None \<longrightarrow> dom c = loader_keys c)))"
  proof (rule exI[of _ h1], rule exI[of _ "?n + ?N"], rule conjI, rule res, intro allI impI)
    fix order assume it: "iteration_of h1 (?n + ?N) order"
    from it have "set order = set (sets h1 ! to_bind' (objs h1 ! (?n + ?N)))"
      by (simp add: iteration_of_def)
    then have so: "set order = {Suc ?n..<Suc ?n + ?N}"
      by (simp only: tb s1 set_upt)
    then have ord: "set order = (\<lambda>j. ?n + j) ` {1..?N}"
      by (simp only: upt_as_image)
    have pre: "\<forall>v\<in>set order. ?n < v \<and> v - ?n \<le> ?N
                 \<and> objs h1 ! v = chain_obj ?s innerjoin (map TStr (take (v - ?n) ts))"
    proof
      fix v assume "v \<in> set order"
      with so have b: "Suc ?n \<le> v" "v < Suc ?n + ?N" by auto
      define k where "k = v - Suc ?n"
      from b have k: "k < ?N" "v = Suc ?n + k" by (simp_all add: k_def)
      with nth1[rule_format, of k] show "?n < v \<and> v - ?n \<le> ?N
                 \<and> objs h1 ! v = chain_obj ?s innerjoin (map TStr (take (v - ?n) ts))"
        by simp
    qed
    define c where "c = fold (\<lambda>v. chain_writes ?e props ?ca innerjoin (v - ?n)) order Map.empty"
    from process_chain[OF pre assms(3,4,5), of raiseerr]
    have "\<exists>h2. UnboundLoad_process' E h1 order q raiseerr
                  = Inr (h2, q\<lparr>attributes' := attributes' q ++ c\<rparr>)"
      by (simp only: c_def d1)
    then obtain h2 where
      p: "UnboundLoad_process' E h1 order q raiseerr = Inr (h2, q\<lparr>attributes' := attributes' q ++ c\<rparr>)"
      by (rule exE)
    note cc = chain_context[OF assms(5) ord order_refl c_def]
    show "\<exists>h2 c. UnboundLoad_process' E h1 order q raiseerr
                          = Inr (h2, q\<lparr>attributes' := attributes' q ++ c\<rparr>)
                  \<and> loader_keys c = (\<lambda>j. (''loader'', rel_path ?e (take j props))) ` {1..?N}
                  \<and> card (loader_keys c) = ?N
                  \<and> (\<forall>j\<in>{1..?N}. c (''loader'', rel_path ?e (take j props))
                          = Some (V_loader (chain_loader ?e props ?ca j)))
                  \<and> (innerjoin = None \<longrightarrow> dom c = loader_keys c)"
      apply (rule exI[of _ h2])
      apply (rule exI[of _ c])
      apply (intro conjI)
          apply (rule p)
         apply (rule cc(1))
        apply (rule cc(2))
       apply (rule cc(3))
      apply (rule cc(4))
      done
  qed
next
  let ?n = "length (objs h)" and ?s = "length (sets h)" and ?N = "length ts"
  let ?e = "entity_zero ent" and ?ca = "length (dicts h)"
  from from_keys_unchained_heap[OF assms(1,2), of innerjoin h] obtain h1 where
    H: "joinedload' keys innerjoin h = Inr (h1, ?n + ?N)
      \<and> dicts h1 = dicts h
      \<and> to_bind' (objs h1 ! (?n + ?N)) = ?s
      \<and> sets h1 ! ?s = [?n + ?N]
      \<and> objs h1 ! (?n + ?N) = chain_obj ?s innerjoin (map TStr ts)"
    by (rule exE)
  note res = H[THEN conjunct1]
    and d1 = H[THEN conjunct2, THEN conjunct1]
    and tb = H[THEN conjunct2, THEN conjunct2, THEN conjunct1]
    and s1 = H[THEN conjunct2, THEN conjunct2, THEN conjunct2, THEN conjunct1]
    and o1 = H[THEN conjunct2, THEN conjunct2, THEN conjunct2, THEN conjunct2]
  have Npos: "0 < ?N" using assms(2) by simp
  have lp: "length props = ?N" by (rule resolve_length[OF assms(5)])
  show "\<exists>h1 opt. joinedload' keys innerjoin h = Inr (h1, opt) \<and>
            (\<forall>order. iteration_of h1 opt order \<longrightarrow>
               (\<exists>h2 c. UnboundLoad_process' E h1 order q raiseerr
                          = Inr (h2, q\<lparr>attributes' := attributes' q ++ c\<rparr>)
                  \<and> loader_keys c = {(''loader'', rel_path ?e props)}
                  \<and> c (''loader'', rel_path ?e props)
                      = Some (V_loader (chain_loader ?e props ?ca ?N))
                  \<and> (innerjoin = None \<longrightarrow> dom c = loader_keys c)))"
  proof (rule exI[of _ h1], rule exI[of _ "?n + ?N"], rule conjI, rule res, intro allI impI)
    fix order assume it: "iteration_of h1 (?n + ?N) order"
    from it have "set order = set (sets h1 ! to_bind' (objs h1 ! (?n + ?N)))"
      by (simp add: iteration_of_def)
    then have so: "set order = {?n + ?N}"
      by (simp only: tb s1 list.set)
    have pre: "\<forall>v\<in>set order. ?n < v \<and> v - ?n \<le> ?N
                 \<and> objs h1 ! v = chain_obj ?s innerjoin (map TStr (take (v - ?n) ts))"
      using so o1 Npos by simp
    define c where "c = fold (\<lambda>v. chain_writes ?e props ?ca innerjoin (v - ?n)) order Map.empty"
    from process_chain[OF pre assms(3,4,5), of raiseerr]
    have "\<exists>h2. UnboundLoad_process' E h1 order q raiseerr
                  = Inr (h2, q\<lparr>attributes' := attributes' q ++ c\<rparr>)"
      by (simp only: c_def d1)
    then obtain h2 where
      p: "UnboundLoad_process' E h1 order q raiseerr = Inr (h2, q\<lparr>attributes' := attributes' q ++ c\<rparr>)"
      by (rule exE)
    have v: "?n + ?N \<in> set order" using so by simp
    have tk: "take (?n + ?N - ?n) props = props" using lp by simp
    have "\<forall>v'\<in>set order. rel_path ?e (take (v' - ?n) props) = rel_path ?e (take (?n + ?N - ?n) props)
            \<longrightarrow> v' - ?n = ?n + ?N - ?n"
      using so by simp
    from fold_writes_hit[of "?n + ?N" order ?e "\<lambda>v. v - ?n" props, OF v this, of ?ca innerjoin Map.empty]
    have hit: "c (''loader'', rel_path ?e props) = Some (V_loader (chain_loader ?e props ?ca ?N))"
      unfolding tk by (simp add: c_def)
    have miss: "c (''loader'', p) = None" if "p \<noteq> rel_path ?e props" for p
    proof -
      have "\<forall>v\<in>set order. rel_path ?e (take (v - ?n) props) \<noteq> p"
        using so that lp by simp
      from fold_writes_miss[of order ?e "\<lambda>v. v - ?n" props p, OF this, of ?ca innerjoin Map.empty]
      show ?thesis by (simp add: c_def)
    qed
    have keys: "loader_keys c = {(''loader'', rel_path ?e props)}"
    proof (rule set_eqI)
      fix k :: "string \<times> path"
      obtain a p where k: "k = (a, p)" by (cases k)
      show "k \<in> loader_keys c \<longleftrightarrow> k \<in> {(''loader'', rel_path ?e props)}"
        using hit miss[of p] by (cases "p = rel_path ?e props") (auto simp: loader_keys_def k)
    qed
    have none: "innerjoin = None \<longrightarrow> dom c = loader_keys c"
    proof
      assume ij: "innerjoin = None"
      have "c (k, p) = None" if "k \<noteq> ''loader''" for k p
        using fold_writes_None_other[OF that, of ?e props ?ca "\<lambda>v. v - ?n" order Map.empty p]
        by (simp add: c_def ij)
      then have "fst k = ''loader''" if "k \<in> dom c" for k
        using that by (cases k) (metis domIff fst_conv)
      then show "dom c = loader_keys c"
        by (auto simp: loader_keys_def)
    qed
    show "\<exists>h2 c. UnboundLoad_process' E h1 order q raiseerr
                          = Inr (h2, q\<lparr>attributes' := attributes' q ++ c\<rparr>)
                  \<and> loader_keys c = {(''loader'', rel_path ?e props)}
                  \<and> c (''loader'', rel_path ?e props)
                      = Some (V_loader (chain_loader ?e props ?ca ?N))
                  \<and> (innerjoin = None \<longrightarrow> dom c = loader_keys c)"
      apply (rule exI[of _ h2])
      apply (rule exI[of _ c])
      apply (intro conjI)
         apply (rule p)
        apply (rule keys)
       apply (rule hit)
      apply (rule none)
      done
  qed
qed

lemma joinedload_all_orders_items_heap:
  "joinedload_all' [''orders.items''] None empty_heap
     = Inr (\<lparr>objs = [\<lparr>ub_path = [], ub_strategy = None, to_bind' = 0, local_opts = []\<rparr>,
                     chain_obj 0 None [TStr ''orders''],
                     chain_obj 0 None [TStr ''orders'', TStr ''items'']],
              sets = [[1, 2]], dicts = []\<rparr>, 2)"
  by (simp add: joinedload_all'_def from_keys'_def UnboundLoad_init_def empty_heap_def
        UnboundLoad_joined_def UnboundLoad_set_strategy'_def UnboundLoad_generate'_def
        UnboundLoad_generate_path'_def set_add_def Let_def chain_obj_def joined_opts_def)

lemma joinedload_orders_items_heap:
  "joinedload' [''orders.items''] None empty_heap
     = Inr (\<lparr>objs = [\<lparr>ub_path = [], ub_strategy = None, to_bind' = 0, local_opts = []\<rparr>,
                     \<lparr>ub_path = [TStr ''orders''], ub_strategy = None, to_bind' = 0,
                       local_opts = []\<rparr>,
                     chain_obj 0 None [TStr ''orders'', TStr ''items'']],
              sets = [[2]], dicts = []\<rparr>, 2)"
  by (simp add: joinedload'_def from_keys'_def UnboundLoad_init_def empty_heap_def
        UnboundLoad_joined_def UnboundLoad_default_def UnboundLoad_set_strategy'_def
        UnboundLoad_generate'_def UnboundLoad_generate_path'_def set_add_def Let_def
        chain_obj_def joined_opts_def)

theorem from_keys_directives_witness:
  "concat (map (split_on CHR ''.'') [''orders.items'']) = [''orders'', ''items'']
   \<and> [''orders'', ''items''] \<noteq> []
   \<and> mapper_entities' (query_of [0] []) = [\<lparr>entity_zero = Mapper 0, ent_mapper = 0\<rparr>]
   \<and> current_path' (query_of [0] []) = []
   \<and> resolve E0 (Mapper 0) [''orders'', ''items''] = Some [User_orders, Order_items]
   \<and> (\<exists>h1 h2 c. joinedload_all' [''orders.items''] None empty_heap = Inr (h1, 2)
         \<and> iteration_of h1 2 [2, 1]
         \<and> UnboundLoad_process' E0 h1 [2, 1] (query_of [0] []) True
              = Inr (h2, (query_of [0] [])\<lparr>attributes' := attributes' (query_of [0] []) ++ c\<rparr>)
         \<and> card (loader_keys c) = 2
         \<and> dom c = loader_keys c
         \<and> c (''loader'', [PEnt (Mapper 0), PProp User_orders])
             = Some (V_loader \<lparr>load_path = [PEnt (Mapper 0), PProp User_orders, PEnt (Mapper 2)],
                                load_context = 0, load_strategy = Some joined_strategy\<rparr>)
         \<and> c (''loader'', [PEnt (Mapper 0), PProp User_orders, PEnt (Mapper 2), PProp Order_items])
             = Some (V_loader \<lparr>load_path = [PEnt (Mapper 0), PProp User_orders, PEnt (Mapper 2),
                                             PProp Order_items, PEnt (Mapper 3)],
                                load_context = 0, load_strategy = Some joined_strategy\<rparr>))
   \<and> (\<exists>h1 h2 c. joinedload' [''orders.items''] None empty_heap = Inr (h1, 2)
         \<and> iteration_of h1 2 [2]
         \<and> UnboundLoad_process' E0 h1 [2] (query_of [0] []) True
              = Inr (h2, (query_of [0] [])\<lparr>attributes' := attributes' (query_of [0] []) ++ c\<rparr>)
         \<and> loader_keys c
             = {(''loader'', [PEnt (Mapper 0), PProp User_orders, PEnt (Mapper 2), PProp Order_items])}
         \<and> dom c = loader_keys c)"
proof -
  let ?q = "query_of [0] []"
  let ?ent = "\<lparr>entity_zero = Mapper 0, ent_mapper = 0\<rparr>"
  let ?ts = "[''orders'', ''items'']"
  let ?props = "[User_orders, Order_items]"
  have k: "concat (map (split_on CHR ''.'') [''orders.items'']) = ?ts"
    by simp
  have ne: "?ts \<noteq> []" by simp
  have me: "mapper_entities' ?q = [?ent]"
    and cp: "current_path' ?q = []"
    by (simp_all add: query_of_def)
  have r: "resolve E0 (Mapper 0) ?ts = Some ?props"
    by (simp add: E0_def class_props_def User_orders_def Order_items_def)
  have r': "resolve E0 (entity_zero ?ent) ?ts = Some ?props"
    using r by simp
  note T = from_keys_directives[OF k ne me cp r',
             where innerjoin = None and h = empty_heap and raiseerr = True]
  from T[THEN conjunct1] obtain h1 opt where
    A: "joinedload_all' [''orders.items''] None empty_heap = Inr (h1, opt) \<and>
        (\<forall>order. iteration_of h1 opt order \<longrightarrow>
           (\<exists>h2 c. UnboundLoad_process' E0 h1 order ?q True
                      = Inr (h2, ?q\<lparr>attributes' := attributes' ?q ++ c\<rparr>)
              \<and> loader_keys c
                  = (\<lambda>j. (''loader'', rel_path (entity_zero ?ent) (take j ?props))) ` {1..length ?ts}
              \<and> card (loader_keys c) = length ?ts
              \<and> (\<forall>j\<in>{1..length ?ts}.
                    c (''loader'', rel_path (entity_zero ?ent) (take j ?props))
                      = Some (V_loader (chain_loader (entity_zero ?ent) ?props
                                          (length (dicts empty_heap)) j)))
              \<and> (None = (None :: bool option) \<longrightarrow> dom c = loader_keys c)))"
    by (elim exE)
  from T[THEN conjunct2] obtain h1' opt' where
    B: "joinedload' [''orders.items''] None empty_heap = Inr (h1', opt') \<and>
        (\<forall>order. iteration_of h1' opt' order \<longrightarrow>
           (\<exists>h2 c. UnboundLoad_process' E0 h1' order ?q True
                      = Inr (h2, ?q\<lparr>attributes' := attributes' ?q ++ c\<rparr>)
              \<and> loader_keys c = {(''loader'', rel_path (entity_zero ?ent) ?props)}
              \<and> c (''loader'', rel_path (entity_zero ?ent) ?props)
                  = Some (V_loader (chain_loader (entity_zero ?ent) ?props
                                      (length (dicts empty_heap)) (length ?ts)))
              \<and> (None = (None :: bool option) \<longrightarrow> dom c = loader_keys c)))"
    by (elim exE)
  note a = A[THEN conjunct1] and a' = A[THEN conjunct2, rule_format]
  note b = B[THEN conjunct1] and b' = B[THEN conjunct2, rule_format]
  from a have h1: "h1 = \<lparr>objs = [\<lparr>ub_path = [], ub_strategy = None, to_bind' = 0, local_opts = []\<rparr>,
                     chain_obj 0 None [TStr ''orders''],
                     chain_obj 0 None [TStr ''orders'', TStr ''items'']],
              sets = [[1, 2]], dicts = []\<rparr>" and opt: "opt = 2"
    unfolding joinedload_all_orders_items_heap by auto
  from b have h1': "h1' = \<lparr>objs = [\<lparr>ub_path = [], ub_strategy = None, to_bind' = 0, local_opts = []\<rparr>,
                     \<lparr>ub_path = [TStr ''orders''], ub_strategy = None, to_bind' = 0,
                       local_opts = []\<rparr>,
                     chain_obj 0 None [TStr ''orders'', TStr ''items'']],
              sets = [[2]], dicts = []\<rparr>" and opt': "opt' = 2"
    unfolding joinedload_orders_items_heap by auto
  have a2: "joinedload_all' [''orders.items''] None empty_heap = Inr (h1, 2)"
    using a opt by simp
  have b2: "joinedload' [''orders.items''] None empty_heap = Inr (h1', 2)"
    using b opt' by simp
  have ita: "iteration_of h1 2 [2, 1]"
    unfolding h1 by (auto simp: iteration_of_def chain_obj_def)
  have itb: "iteration_of h1' 2 [2]"
    unfolding h1' by (auto simp: iteration_of_def chain_obj_def)
  have ita': "iteration_of h1 opt [2, 1]" using ita opt by simp
  have itb': "iteration_of h1' opt' [2]" using itb opt' by simp
  from a'[OF ita'] obtain h2 c where
    C: "UnboundLoad_process' E0 h1 [2, 1] ?q True
           = Inr (h2, ?q\<lparr>attributes' := attributes' ?q ++ c\<rparr>)
        \<and> loader_keys c
            = (\<lambda>j. (''loader'', rel_path (entity_zero ?ent) (take j ?props))) ` {1..length ?ts}
        \<and> card (loader_keys c) = length ?ts
        \<and> (\<forall>j\<in>{1..length ?ts}.
              c (''loader'', rel_path (entity_zero ?ent) (take j ?props))
                = Some (V_loader (chain_loader (entity_zero ?ent) ?props
                                    (length (dicts empty_heap)) j)))
        \<and> (None = (None :: bool option) \<longrightarrow> dom c = loader_keys c)"
    by (elim exE)
  note pa = C[THEN conjunct1]
  have ca1: "card (loader_keys c) = 2"
    using C[THEN conjunct2, THEN conjunct2, THEN conjunct1] by simp
  have ca2: "dom c = loader_keys c"
    using C[THEN conjunct2, THEN conjunct2, THEN conjunct2, THEN conjunct2] by simp
  note cj = C[THEN conjunct2, THEN conjunct2, THEN conjunct2, THEN conjunct1, rule_format]
  have c1: "c (''loader'', [PEnt (Mapper 0), PProp User_orders])
             = Some (V_loader \<lparr>load_path = [PEnt (Mapper 0), PProp User_orders, PEnt (Mapper 2)],
                                load_context = 0, load_strategy = Some joined_strategy\<rparr>)"
    using cj[of 1]
    by (simp add: chain_loader_def empty_heap_def full_path_def User_orders_def Order_items_def)
  have c2: "c (''loader'', [PEnt (Mapper 0), PProp User_orders, PEnt (Mapper 2), PProp Order_items])
             = Some (V_loader \<lparr>load_path = [PEnt (Mapper 0), PProp User_orders, PEnt (Mapper 2),
                                             PProp Order_items, PEnt (Mapper 3)],
                                load_context = 0, load_strategy = Some joined_strategy\<rparr>)"
    using cj[of 2]
    by (simp add: chain_loader_def empty_heap_def full_path_def User_orders_def Order_items_def)
  from b'[OF itb'] obtain h2' c' where
    D: "UnboundLoad_process' E0 h1' [2] ?q True
           = Inr (h2', ?q\<lparr>attributes' := attributes' ?q ++ c'\<rparr>)
        \<and> loader_keys c' = {(''loader'', rel_path (entity_zero ?ent) ?props)}
        \<and> c' (''loader'', rel_path (entity_zero ?ent) ?props)
            = Some (V_loader (chain_loader (entity_zero ?ent) ?props
                                (length (dicts empty_heap)) (length ?ts)))
        \<and> (None = (None :: bool option) \<longrightarrow> dom c' = loader_keys c')"
    by (elim exE)
  note pb = D[THEN conjunct1]
  have cb1: "loader_keys c'
      = {(''loader'', [PEnt (Mapper 0), PProp User_orders, PEnt (Mapper 2), PProp Order_items])}"
    using D[THEN conjunct2, THEN conjunct1]
    by (simp add: User_orders_def Order_items_def)
  have cb2: "dom c' = loader_keys c'"
    using D[THEN conjunct2, THEN conjunct2, THEN conjunct2] by simp
  have W1: "\<exists>h1 h2 c. joinedload_all' [''orders.items''] None empty_heap = Inr (h1, 2)
         \<and> iteration_of h1 2 [2, 1]
         \<and> UnboundLoad_process' E0 h1 [2, 1] ?q True
              = Inr (h2, ?q\<lparr>attributes' := attributes' ?q ++ c\<rparr>)
         \<and> card (loader_keys c) = 2
         \<and> dom c = loader_keys c
         \<and> c (''loader'', [PEnt (Mapper 0), PProp User_orders])
             = Some (V_loader \<lparr>load_path = [PEnt (Mapper 0), PProp User_orders, PEnt (Mapper 2)],
                                load_context = 0, load_strategy = Some joined_strategy\<rparr>)
         \<and> c (''loader'', [PEnt (Mapper 0), PProp User_orders, PEnt (Mapper 2), PProp Order_items])
             = Some (V_loader \<lparr>load_path = [PEnt (Mapper 0), PProp User_orders, PEnt (Mapper 2),
                                             PProp Order_items, PEnt (Mapper 3)],
                                load_context = 0, load_strategy = Some joined_strategy\<rparr>)"
    apply (rule exI[of _ h1], rule exI[of _ h2], rule exI[of _ c])
    apply (intro conjI)
          apply (rule a2)
         apply (rule ita)
        apply (rule pa)
       apply (rule ca1)
      apply (rule ca2)
     apply (rule c1)
    apply (rule c2)
    done
  have W2: "\<exists>h1 h2 c. joinedload' [''orders.items''] None empty_heap = Inr (h1, 2)
         \<and> iteration_of h1 2 [2]
         \<and> UnboundLoad_process' E0 h1 [2] ?q True
              = Inr (h2, ?q\<lparr>attributes' := attributes' ?q ++ c\<rparr>)
         \<and> loader_keys c
             = {(''loader'', [PEnt (Mapper 0), PProp User_orders, PEnt (Mapper 2), PProp Order_items])}
         \<and> dom c = loader_keys c"
    apply (rule exI[of _ h1'], rule exI[of _ h2'], rule exI[of _ c'])
    apply (intro conjI)
        apply (rule b2)
       apply (rule itb)
      apply (rule pb)
     apply (rule cb1)
    apply (rule cb2)
    done
  show ?thesis
    apply (intro conjI)
          apply (rule k)
         apply (rule ne)
        apply (rule me)
       apply (rule cp)
      apply (rule r)
     apply (rule W1)
    apply (rule W2)
    done
qed

end
